theory Spec2Isabelle
  imports Complex_Main "HOL-Library.AList"
begin

section \<open>The world map of src/world_map.py\<close>

text \<open>
  Conventions of the embedding.
  \<^item> A Python \<^verbatim>\<open>dict\<close> keeps insertion order, so it is an association list:
    \<^const>\<open>map_of\<close> reads a key, \<^const>\<open>AList.update\<close> is \<^verbatim>\<open>d[k] = v\<close> (it replaces the value
    in place for a key that is present and appends a new key at the end, as Python does),
    and \<^const>\<open>AList.map_entry\<close> is the in-place mutation of the object stored under a key.
    A Python dict has no duplicate keys: the association lists that stand for one have
    distinct keys.
  \<^item> A \<^verbatim>\<open>Room\<close> object lives in the store under exactly one key (\<^verbatim>\<open>add_room\<close> and
    \<^verbatim>\<open>from_dict\<close> create a fresh object per key), so a reference to a room is its key and a
    mutation through the reference is a mutation of the entry of that key.
  \<^item> Python's \<^verbatim>\<open>float\<close> is modelled by \<^typ>\<open>real\<close>: rounding, underflow, infinities and NaN
    are not modelled. The theorems below are of two kinds: those about which rooms and
    which fields an operation changes, which hold whatever coordinates the arithmetic
    gives, and those that evaluate an operation at small whole numbers, where the float
    arithmetic is exact. Python's unbounded \<^verbatim>\<open>int\<close> is \<^typ>\<open>int\<close>.
  \<^item> An exception is a value \<open>Inl e\<close> of a sum type.
\<close>

subsection \<open>Directions\<close>

datatype Direction =
  NORTH | SOUTH | EAST | WEST | NORTHEAST | NORTHWEST | SOUTHEAST | SOUTHWEST | UP | DOWN

datatype error = ValueError string | KeyError string

text \<open>\<^verbatim>\<open>direction.value\<close>: the token of an enumeration member.\<close>

fun Direction_value :: "Direction \<Rightarrow> string" where
  "Direction_value NORTH = ''north''"
| "Direction_value SOUTH = ''south''"
| "Direction_value EAST = ''east''"
| "Direction_value WEST = ''west''"
| "Direction_value NORTHEAST = ''northeast''"
| "Direction_value NORTHWEST = ''northwest''"
| "Direction_value SOUTHEAST = ''southeast''"
| "Direction_value SOUTHWEST = ''southwest''"
| "Direction_value UP = ''up''"
| "Direction_value DOWN = ''down''"

text \<open>The ten tokens, in the order of the class body.\<close>

definition Direction_members :: "Direction list" where
  "Direction_members =
     [NORTH, SOUTH, EAST, WEST, NORTHEAST, NORTHWEST, SOUTHEAST, SOUTHWEST, UP, DOWN]"

text \<open>\<^verbatim>\<open>Direction(token)\<close>: the member with that value, or \<^verbatim>\<open>ValueError\<close>.\<close>

definition Direction_of_value :: "string \<Rightarrow> error + Direction" where
  "Direction_of_value token =
     (case find (\<lambda>d. Direction_value d = token) Direction_members of
        None \<Rightarrow> Inl (ValueError token)
      | Some d \<Rightarrow> Inr d)"

text \<open>\<^verbatim>\<open>WorldMap._get_reverse_direction\<close>: \<^verbatim>\<open>reverse_map.get(direction)\<close>.\<close>

fun get_reverse_direction :: "Direction \<Rightarrow> Direction option" where
  "get_reverse_direction NORTH = Some SOUTH"
| "get_reverse_direction SOUTH = Some NORTH"
| "get_reverse_direction EAST = Some WEST"
| "get_reverse_direction WEST = Some EAST"
| "get_reverse_direction NORTHEAST = Some SOUTHWEST"
| "get_reverse_direction SOUTHWEST = Some NORTHEAST"
| "get_reverse_direction NORTHWEST = Some SOUTHEAST"
| "get_reverse_direction SOUTHEAST = Some NORTHWEST"
| "get_reverse_direction UP = Some DOWN"
| "get_reverse_direction DOWN = Some UP"

subsection \<open>Rooms, exits and the store\<close>

record RoomExit =
  direction :: Direction
  target_room_id :: "string option"
  is_discovered :: bool

text \<open>The field \<^verbatim>\<open>id\<close> of the source is \<open>id'\<close> here (\<open>id\<close> is the identity function of HOL).\<close>

record Room =
  id' :: string
  name :: string
  description :: string
  width :: real
  height :: real
  x :: real
  y :: real
  exits :: "(Direction \<times> RoomExit) list"
  is_starting_room :: bool
  discovery_order :: int

record WorldMap =
  rooms :: "(string \<times> Room) list"
  discovery_count :: int
  starting_room_id :: "string option"

text \<open>\<^verbatim>\<open>WorldMap.__init__\<close>\<close>

definition WorldMap_init :: WorldMap where
  "WorldMap_init = \<lparr>rooms = [], discovery_count = 0, starting_room_id = None\<rparr>"

text \<open>\<^verbatim>\<open>Room.add_exit\<close>: \<^verbatim>\<open>self.exits[direction] = RoomExit(direction, target, target is not None)\<close>.\<close>

definition add_exit :: "Room \<Rightarrow> Direction \<Rightarrow> string option \<Rightarrow> Room" where
  "add_exit self dir target =
     self\<lparr>exits := AList.update dir
        \<lparr>direction = dir, target_room_id = target, is_discovered = (target \<noteq> None)\<rparr>
        (exits self)\<rparr>"

text \<open>The mutation \<open>f\<close> of the room object stored under \<open>key\<close>.\<close>

definition mutate_room :: "WorldMap \<Rightarrow> string \<Rightarrow> (Room \<Rightarrow> Room) \<Rightarrow> WorldMap" where
  "mutate_room self key f = self\<lparr>rooms := AList.map_entry key f (rooms self)\<rparr>"

text \<open>
  \<^verbatim>\<open>WorldMap.add_room\<close>. It returns the room and the store. The constructor leaves
  \<^verbatim>\<open>x\<close>, \<^verbatim>\<open>y\<close> at their defaults 0.0 and \<^verbatim>\<open>exits\<close> empty. There is no check of \<^verbatim>\<open>width\<close> and
  \<^verbatim>\<open>height\<close> in the source.
\<close>

definition add_room ::
  "WorldMap \<Rightarrow> string \<Rightarrow> string \<Rightarrow> string \<Rightarrow> real \<Rightarrow> real \<Rightarrow> bool \<Rightarrow> Room \<times> WorldMap" where
  "add_room self room_id nm descr w h is_start =
     (case map_of (rooms self) room_id of
        Some existing \<Rightarrow> (existing, self)
      | None \<Rightarrow>
          let self1 = self\<lparr>discovery_count := discovery_count self + 1\<rparr>;
              room = \<lparr>id' = room_id, name = nm, description = descr, width = w, height = h,
                      x = 0, y = 0, exits = [], is_starting_room = is_start,
                      discovery_order = discovery_count self1\<rparr>;
              (room1, self2) =
                (if is_start \<or> length (rooms self1) = 0
                 then (room\<lparr>x := 0, y := 0\<rparr>, self1\<lparr>starting_room_id := Some room_id\<rparr>)
                 else (room, self1))
          in (room1, self2\<lparr>rooms := AList.update room_id room1 (rooms self2)\<rparr>))"

subsection \<open>Overlap test and conflict resolution\<close>

text \<open>\<^verbatim>\<open>WorldMap._rooms_overlap\<close>\<close>

definition rooms_overlap :: "Room \<Rightarrow> Room \<Rightarrow> bool" where
  "rooms_overlap room1 room2 =
     (let r1_left = x room1 - width room1 / 2;
          r1_right = x room1 + width room1 / 2;
          r1_bottom = y room1 - height room1 / 2;
          r1_top = y room1 + height room1 / 2;
          r2_left = x room2 - width room2 / 2;
          r2_right = x room2 + width room2 / 2;
          r2_bottom = y room2 - height room2 / 2;
          r2_top = y room2 + height room2 / 2
      in \<not> (r1_right \<le> r2_left \<or> r1_left \<ge> r2_right \<or>
             r1_top \<le> r2_bottom \<or> r1_bottom \<ge> r2_top))"

text \<open>
  \<^verbatim>\<open>WorldMap._move_room_away_from_conflict\<close>: the moving room after the two assignments.
  The blocking room is only read. In Python the test \<^verbatim>\<open>distance == 0\<close> is on the float
  \<^verbatim>\<open>math.sqrt(dx*dx + dy*dy)\<close>, which is also zero when the squares underflow for centres
  that differ, and which is infinite when they overflow; over the reals the test holds
  only when the centres coincide. No theorem of this file says which vector is taken for
  centres that differ.
\<close>

definition move_room_away_from_conflict :: "Room \<Rightarrow> Room \<Rightarrow> Room" where
  "move_room_away_from_conflict moving_room blocking_room =
     (let dx = x moving_room - x blocking_room;
          dy = y moving_room - y blocking_room;
          distance = sqrt (dx * dx + dy * dy);
          (dx, dy) = (if distance = 0 then (1, 0) else (dx / distance, dy / distance));
          min_distance_x = (width moving_room + width blocking_room) / 2 + 1;
          min_distance_y = (height moving_room + height blocking_room) / 2 + 1;
          min_distance = max min_distance_x min_distance_y
      in moving_room\<lparr>x := x blocking_room + dx * min_distance,
                      y := y blocking_room + dy * min_distance\<rparr>)"

text \<open>
  The \<^verbatim>\<open>for\<close> loop of \<^verbatim>\<open>_resolve_spatial_conflicts\<close> over \<^verbatim>\<open>self.rooms.values()\<close>: it returns
  the new room and \<^verbatim>\<open>conflict_found\<close>. A room with the id of the new room is skipped; the
  first other room that overlaps moves the new room and ends the loop.
\<close>

fun scan_rooms :: "Room list \<Rightarrow> Room \<Rightarrow> Room \<times> bool" where
  "scan_rooms [] new_room = (new_room, False)"
| "scan_rooms (existing_room # rest) new_room =
     (if id' existing_room = id' new_room then scan_rooms rest new_room
      else if rooms_overlap new_room existing_room
        then (move_room_away_from_conflict new_room existing_room, True)
      else scan_rooms rest new_room)"

text \<open>
  The \<^verbatim>\<open>while\<close> loop of \<^verbatim>\<open>_resolve_spatial_conflicts\<close>, with \<^verbatim>\<open>max_iterations = 10\<close>. The
  new room is itself one of the values of the store; the scan skips it by its id, so the
  rooms that the scan tests are those of the store at entry, which the loop never changes.
\<close>

function resolve_loop :: "nat \<Rightarrow> WorldMap \<Rightarrow> Room \<Rightarrow> Room" where
  "resolve_loop iteration self new_room =
     (if iteration < 10
      then (case scan_rooms (map snd (rooms self)) new_room of
              (new_room1, conflict_found) \<Rightarrow>
                if \<not> conflict_found then new_room1
                else resolve_loop (iteration + 1) self new_room1)
      else new_room)"
  by pat_completeness auto
termination
  by (relation "measure (\<lambda>(iteration, self, new_room). 10 - iteration)") auto

declare resolve_loop.simps [simp del]

definition resolve_spatial_conflicts :: "WorldMap \<Rightarrow> Room \<Rightarrow> Room" where
  "resolve_spatial_conflicts self new_room = resolve_loop 0 self new_room"

subsection \<open>Placement and connection\<close>

text \<open>The table \<^verbatim>\<open>direction_vectors\<close> of \<^verbatim>\<open>_position_room_relative_to\<close>.\<close>

fun direction_vectors :: "real \<Rightarrow> real \<Rightarrow> Direction \<Rightarrow> real \<times> real" where
  "direction_vectors base_distance_x base_distance_y NORTH = (0, base_distance_y)"
| "direction_vectors base_distance_x base_distance_y SOUTH = (0, - base_distance_y)"
| "direction_vectors base_distance_x base_distance_y EAST = (base_distance_x, 0)"
| "direction_vectors base_distance_x base_distance_y WEST = (- base_distance_x, 0)"
| "direction_vectors base_distance_x base_distance_y NORTHEAST =
     (base_distance_x * 0.7, base_distance_y * 0.7)"
| "direction_vectors base_distance_x base_distance_y NORTHWEST =
     (- base_distance_x * 0.7, base_distance_y * 0.7)"
| "direction_vectors base_distance_x base_distance_y SOUTHEAST =
     (base_distance_x * 0.7, - base_distance_y * 0.7)"
| "direction_vectors base_distance_x base_distance_y SOUTHWEST =
     (- base_distance_x * 0.7, - base_distance_y * 0.7)"
| "direction_vectors base_distance_x base_distance_y UP = (0, 0)"
| "direction_vectors base_distance_x base_distance_y DOWN = (0, 0)"

text \<open>
  \<^verbatim>\<open>WorldMap._position_room_relative_to\<close>: the target room after the placement and the
  conflict resolution. When target and reference are the same object (a room connected to
  itself), \<^verbatim>\<open>reference_room.y\<close> is read after \<^verbatim>\<open>target_room.x\<close> was written, and is the
  value it had before.
\<close>

definition position_room_relative_to ::
  "WorldMap \<Rightarrow> Room \<Rightarrow> Room \<Rightarrow> Direction \<Rightarrow> Room" where
  "position_room_relative_to self target_room reference_room dir =
     (let base_distance_x = (width reference_room + width target_room) / 2;
          base_distance_y = (height reference_room + height target_room) / 2;
          (offset_x, offset_y) = direction_vectors base_distance_x base_distance_y dir
      in resolve_spatial_conflicts self
           (target_room\<lparr>x := x reference_room + offset_x,
                         y := y reference_room + offset_y\<rparr>))"

text \<open>
  \<^verbatim>\<open>WorldMap.connect_rooms\<close>. The two exits are written through the keys, one after the
  other, so that a room connected to itself receives both. \<open>to_room\<close> and \<open>from_room\<close> are
  then read as the objects are after these writes. A missing key in \<^verbatim>\<open>self.rooms[...]\<close>
  is Python's \<^verbatim>\<open>KeyError\<close>; the check at the head excludes it.
\<close>

definition connect_rooms ::
  "WorldMap \<Rightarrow> string \<Rightarrow> Direction \<Rightarrow> string \<Rightarrow> error + WorldMap" where
  "connect_rooms self from_room_id dir to_room_id =
     (if map_of (rooms self) from_room_id = None \<or> map_of (rooms self) to_room_id = None
      then Inl (ValueError ''Both rooms must exist before connecting them'')
      else
        let self1 = mutate_room self from_room_id
                      (\<lambda>from_room. add_exit from_room dir (Some to_room_id));
            self2 = (case get_reverse_direction dir of
                       None \<Rightarrow> self1
                     | Some reverse_direction \<Rightarrow>
                         mutate_room self1 to_room_id
                           (\<lambda>to_room. add_exit to_room reverse_direction (Some from_room_id)))
        in (case map_of (rooms self2) from_room_id of
              None \<Rightarrow> Inl (KeyError from_room_id)
            | Some from_room \<Rightarrow>
               (case map_of (rooms self2) to_room_id of
                  None \<Rightarrow> Inl (KeyError to_room_id)
                | Some to_room \<Rightarrow>
                    if x to_room = 0 \<and> y to_room = 0 \<and> \<not> is_starting_room to_room
                    then Inr (mutate_room self2 to_room_id
                           (\<lambda>_. position_room_relative_to self2 to_room from_room dir))
                    else Inr self2)))"

text \<open>\<^verbatim>\<open>WorldMap.discover_exit\<close>: nothing happens for an id that is not in the store.\<close>

definition discover_exit :: "WorldMap \<Rightarrow> string \<Rightarrow> Direction \<Rightarrow> WorldMap" where
  "discover_exit self room_id dir =
     (if map_of (rooms self) room_id \<noteq> None
      then mutate_room self room_id (\<lambda>room. add_exit room dir None)
      else self)"

subsection \<open>The persistence codec\<close>

text \<open>
  The persisted record is the nested \<^verbatim>\<open>dict\<close> that \<^verbatim>\<open>to_dict\<close> builds and \<^verbatim>\<open>from_dict\<close>
  reads. A dict with a fixed set of string keys is a record of optional fields: \<open>None\<close> is
  a key that is absent, \<open>Some v\<close> a key that is present with value \<open>v\<close>; a value that may
  itself be Python's \<^verbatim>\<open>None\<close> has an option type of its own. The values have the types of
  the annotations of the source. The dicts keyed by room id and by direction token are
  association lists.
\<close>

record exit_data =
  ed_direction :: "string option"
  ed_target_room_id :: "string option option"
  ed_is_discovered :: "bool option"

record room_data =
  rd_id :: "string option"
  rd_name :: "string option"
  rd_description :: "string option"
  rd_width :: "real option"
  rd_height :: "real option"
  rd_x :: "real option"
  rd_y :: "real option"
  rd_is_starting_room :: "bool option"
  rd_discovery_order :: "int option"
  rd_exits :: "(string \<times> exit_data) list option"

record map_data =
  md_discovery_count :: "int option"
  md_starting_room_id :: "string option option"
  md_rooms :: "(string \<times> room_data) list option"

text \<open>A dict comprehension inserts its items one after the other into an empty dict.\<close>

definition dict_of_items :: "('k \<times> 'v) list \<Rightarrow> ('k \<times> 'v) list" where
  "dict_of_items items = foldl (\<lambda>d (k, v). AList.update k v d) [] items"

text \<open>\<^verbatim>\<open>d.get(key, default)\<close> on an optional field.\<close>

definition get_default :: "'a option \<Rightarrow> 'a \<Rightarrow> 'a" where
  "get_default entry dflt = (case entry of None \<Rightarrow> dflt | Some v \<Rightarrow> v)"

text \<open>\<^verbatim>\<open>WorldMap.to_dict\<close>, from the innermost comprehension outwards.\<close>

definition exit_to_dict :: "RoomExit \<Rightarrow> exit_data" where
  "exit_to_dict exit_info =
     \<lparr>ed_direction = Some (Direction_value (direction exit_info)),
      ed_target_room_id = Some (target_room_id exit_info),
      ed_is_discovered = Some (is_discovered exit_info)\<rparr>"

definition room_to_dict :: "Room \<Rightarrow> room_data" where
  "room_to_dict room =
     \<lparr>rd_id = Some (id' room),
      rd_name = Some (name room),
      rd_description = Some (description room),
      rd_width = Some (width room),
      rd_height = Some (height room),
      rd_x = Some (x room),
      rd_y = Some (y room),
      rd_is_starting_room = Some (is_starting_room room),
      rd_discovery_order = Some (discovery_order room),
      rd_exits = Some (dict_of_items
        (map (\<lambda>(dir, exit_info). (Direction_value dir, exit_to_dict exit_info)) (exits room)))\<rparr>"

definition to_dict :: "WorldMap \<Rightarrow> map_data" where
  "to_dict self =
     \<lparr>md_discovery_count = Some (discovery_count self),
      md_starting_room_id = Some (starting_room_id self),
      md_rooms = Some (dict_of_items
        (map (\<lambda>(room_id, room). (room_id, room_to_dict room)) (rooms self)))\<rparr>"

text \<open>
  The constructor call of the first pass of \<^verbatim>\<open>from_dict\<close>. The arguments are evaluated in
  the order they are written; \<^verbatim>\<open>room_data['id']\<close> on an absent key is \<^verbatim>\<open>KeyError\<close>.
\<close>

definition room_of_data :: "room_data \<Rightarrow> error + Room" where
  "room_of_data room_data =
     (case rd_id room_data of None \<Rightarrow> Inl (KeyError ''id'') | Some v_id \<Rightarrow>
     (case rd_name room_data of None \<Rightarrow> Inl (KeyError ''name'') | Some v_name \<Rightarrow>
     (case rd_description room_data of None \<Rightarrow> Inl (KeyError ''description'') | Some v_description \<Rightarrow>
     (case rd_width room_data of None \<Rightarrow> Inl (KeyError ''width'') | Some v_width \<Rightarrow>
     (case rd_height room_data of None \<Rightarrow> Inl (KeyError ''height'') | Some v_height \<Rightarrow>
     (case rd_x room_data of None \<Rightarrow> Inl (KeyError ''x'') | Some v_x \<Rightarrow>
     (case rd_y room_data of None \<Rightarrow> Inl (KeyError ''y'') | Some v_y \<Rightarrow>
        Inr \<lparr>id' = v_id, name = v_name, description = v_description,
             width = v_width, height = v_height, x = v_x, y = v_y, exits = [],
             is_starting_room = get_default (rd_is_starting_room room_data) False,
             discovery_order = get_default (rd_discovery_order room_data) 0\<rparr>)))))))"

text \<open>First pass: \<^verbatim>\<open>world_map.rooms[room_id] = room\<close> for every item.\<close>

fun create_rooms :: "(string \<times> room_data) list \<Rightarrow> WorldMap \<Rightarrow> error + WorldMap" where
  "create_rooms [] world_map = Inr world_map"
| "create_rooms ((room_id, room_data) # rest) world_map =
     (case room_of_data room_data of
        Inl e \<Rightarrow> Inl e
      | Inr room \<Rightarrow>
          create_rooms rest
            (world_map\<lparr>rooms := AList.update room_id room (rooms world_map)\<rparr>))"

text \<open>
  The inner loop of the second pass over the exits of one room. \<^verbatim>\<open>Direction(direction_str)\<close>
  is evaluated first, then \<^verbatim>\<open>exit_data['direction']\<close> and its \<^verbatim>\<open>Direction(...)\<close>.
\<close>

fun restore_room_exits :: "(string \<times> exit_data) list \<Rightarrow> Room \<Rightarrow> error + Room" where
  "restore_room_exits [] room = Inr room"
| "restore_room_exits ((direction_str, exit_data) # rest) room =
     (case Direction_of_value direction_str of
        Inl e \<Rightarrow> Inl e
      | Inr dir \<Rightarrow>
         (case ed_direction exit_data of
            None \<Rightarrow> Inl (KeyError ''direction'')
          | Some token \<Rightarrow>
             (case Direction_of_value token of
                Inl e \<Rightarrow> Inl e
              | Inr exit_dir \<Rightarrow>
                  restore_room_exits rest
                    (room\<lparr>exits := AList.update dir
                       \<lparr>direction = exit_dir,
                        target_room_id = get_default (ed_target_room_id exit_data) None,
                        is_discovered = get_default (ed_is_discovered exit_data) False\<rparr>
                       (exits room)\<rparr>))))"

text \<open>Second pass: \<^verbatim>\<open>room = world_map.rooms[room_id]\<close>, then the inner loop on that object.\<close>

fun restore_exits :: "(string \<times> room_data) list \<Rightarrow> WorldMap \<Rightarrow> error + WorldMap" where
  "restore_exits [] world_map = Inr world_map"
| "restore_exits ((room_id, room_data) # rest) world_map =
     (case map_of (rooms world_map) room_id of
        None \<Rightarrow> Inl (KeyError room_id)
      | Some room \<Rightarrow>
         (case restore_room_exits (get_default (rd_exits room_data) []) room of
            Inl e \<Rightarrow> Inl e
          | Inr room1 \<Rightarrow> restore_exits rest (mutate_room world_map room_id (\<lambda>_. room1))))"

text \<open>\<^verbatim>\<open>WorldMap.from_dict\<close>\<close>

definition from_dict :: "map_data \<Rightarrow> error + WorldMap" where
  "from_dict data =
     (let world_map = WorldMap_init
            \<lparr>discovery_count := get_default (md_discovery_count data) 0,
             starting_room_id := get_default (md_starting_room_id data) None\<rparr>
      in case create_rooms (get_default (md_rooms data) []) world_map of
           Inl e \<Rightarrow> Inl e
         | Inr world_map1 \<Rightarrow> restore_exits (get_default (md_rooms data) []) world_map1)"

subsection \<open>Calls of a driver\<close>

text \<open>
  The three mutators as a driver calls them. Only \<^verbatim>\<open>connect_rooms\<close> has a \<^verbatim>\<open>raise\<close>; it
  raises before it writes anything, so a driver that catches the exception goes on with
  the store as it was.
\<close>

datatype call =
  AddRoom string string string real real bool
| ConnectRooms string Direction string
| DiscoverExit string Direction

fun perform :: "WorldMap \<Rightarrow> call \<Rightarrow> error + WorldMap" where
  "perform self (AddRoom room_id nm descr w h is_start) =
     Inr (snd (add_room self room_id nm descr w h is_start))"
| "perform self (ConnectRooms from_room_id dir to_room_id) =
     connect_rooms self from_room_id dir to_room_id"
| "perform self (DiscoverExit room_id dir) = Inr (discover_exit self room_id dir)"

fun run_calls :: "WorldMap \<Rightarrow> call list \<Rightarrow> WorldMap" where
  "run_calls self [] = self"
| "run_calls self (c # cs) =
     run_calls (case perform self c of Inl e \<Rightarrow> self | Inr self1 \<Rightarrow> self1) cs"

subsection \<open>The specification's wording, for comparison with the code\<close>

text \<open>
  The reverse of a direction as the specification words it: opposite cardinal and
  intercardinal directions are paired, and up and down are each other's reverse.
\<close>

fun spec_reverse :: "Direction \<Rightarrow> Direction" where
  "spec_reverse NORTH = SOUTH"
| "spec_reverse SOUTH = NORTH"
| "spec_reverse EAST = WEST"
| "spec_reverse WEST = EAST"
| "spec_reverse NORTHEAST = SOUTHWEST"
| "spec_reverse SOUTHWEST = NORTHEAST"
| "spec_reverse NORTHWEST = SOUTHEAST"
| "spec_reverse SOUTHEAST = NORTHWEST"
| "spec_reverse UP = DOWN"
| "spec_reverse DOWN = UP"








text \<open>
  A store is valid as a Python object when its two kinds of dict have no duplicate key.
\<close>

definition valid_WorldMap :: "WorldMap \<Rightarrow> bool" where
  "valid_WorldMap self =
     (distinct (map fst (rooms self)) \<and>
      list_all (\<lambda>item. distinct (map fst (exits (snd item)))) (rooms self))"

text \<open>The number of rooms of a store whose \<^verbatim>\<open>is_starting_room\<close> flag is set.\<close>

definition count_starting :: "WorldMap \<Rightarrow> nat" where
  "count_starting self = length (filter (\<lambda>item. is_starting_room (snd item)) (rooms self))"

text \<open>\<open>moved_only r r'\<close>: the room \<open>r'\<close> is the room \<open>r\<close> but for its coordinates.\<close>

definition moved_only :: "Room \<Rightarrow> Room \<Rightarrow> bool" where
  "moved_only r r' = (r' = r\<lparr>x := x r', y := y r'\<rparr>)"

text \<open>
  The store after the two \<open>add_exit\<close> writes of \<open>connect_rooms\<close>, before any placement.
\<close>

definition write_exits :: "WorldMap \<Rightarrow> string \<Rightarrow> Direction \<Rightarrow> Direction \<Rightarrow> string \<Rightarrow> WorldMap" where
  "write_exits self a d reverse_direction b =
     mutate_room (mutate_room self a (\<lambda>from_room. add_exit from_room d (Some b))) b
       (\<lambda>to_room. add_exit to_room reverse_direction (Some a))"

text \<open>\<open>same_record r r'\<close>: the room \<open>r'\<close> is the room \<open>r\<close> but for its exits and coordinates.\<close>

definition same_record :: "Room \<Rightarrow> Room \<Rightarrow> bool" where
  "same_record r r' = (r' = r\<lparr>exits := exits r', x := x r', y := y r'\<rparr>)"

text \<open>Every room whose \<^verbatim>\<open>is_starting_room\<close> flag is set is at the origin.\<close>

definition starting_at_origin :: "WorldMap \<Rightarrow> bool" where
  "starting_at_origin self =
     (\<forall>k r. map_of (rooms self) k = Some r \<longrightarrow> is_starting_room r \<longrightarrow> x r = 0 \<and> y r = 0)"

text \<open>
  The claim on the starting room as it is stated: exactly one room has the flag
  \<^verbatim>\<open>is_starting_room\<close>, and \<^verbatim>\<open>starting_room_id\<close> names a room that has it.
\<close>

definition exactly_one_starting :: "WorldMap \<Rightarrow> bool" where
  "exactly_one_starting self =
     (count_starting self = 1 \<and>
      (case starting_room_id self of
         None \<Rightarrow> False
       | Some k \<Rightarrow>
          (case map_of (rooms self) k of
             None \<Rightarrow> False
           | Some r \<Rightarrow> is_starting_room r)))"

text \<open>
  \<^verbatim>\<open>starting_room_id\<close> names a room of the store that has the flag \<^verbatim>\<open>is_starting_room\<close>, and
  no room with the flag was created after it.
\<close>

definition names_last_flagged :: "WorldMap \<Rightarrow> bool" where
  "names_last_flagged self =
     (case starting_room_id self of
        None \<Rightarrow> False
      | Some k \<Rightarrow>
         (case map_of (rooms self) k of
            None \<Rightarrow> False
          | Some r \<Rightarrow>
              is_starting_room r \<and>
              list_all (\<lambda>item. is_starting_room (snd item) \<longrightarrow>
                discovery_order (snd item) \<le> discovery_order r) (rooms self)))"

text \<open>The first \<open>add_room\<close> call of a sequence passes \<^verbatim>\<open>is_starting_room=True\<close>.\<close>

fun first_add_flagged :: "call list \<Rightarrow> bool" where
  "first_add_flagged [] = False"
| "first_add_flagged (AddRoom room_id nm descr w h is_start # cs) = is_start"
| "first_add_flagged (ConnectRooms from_room_id dir to_room_id # cs) = first_add_flagged cs"
| "first_add_flagged (DiscoverExit room_id dir # cs) = first_add_flagged cs"

text \<open>
  The number of \<open>add_room\<close> calls of a sequence that create a room and pass
  \<^verbatim>\<open>is_starting_room=True\<close>, the ids in \<open>seen\<close> being in the store already. A call with an
  id that is in the store creates nothing.
\<close>

fun flagged_creations :: "string list \<Rightarrow> call list \<Rightarrow> nat" where
  "flagged_creations seen [] = 0"
| "flagged_creations seen (AddRoom room_id nm descr w h is_start # cs) =
     (if room_id \<in> set seen then flagged_creations seen cs
      else (if is_start then 1 else 0) + flagged_creations (seen @ [room_id]) cs)"
| "flagged_creations seen (ConnectRooms from_room_id dir to_room_id # cs) =
     flagged_creations seen cs"
| "flagged_creations seen (DiscoverExit room_id dir # cs) = flagged_creations seen cs"

text \<open>
  What the invariants on the starting room depend on: per room its key, its flag and its
  discovery order, in the order of the store.
\<close>

definition room_summary :: "WorldMap \<Rightarrow> (string \<times> bool \<times> int) list" where
  "room_summary self =
     map (\<lambda>item. (fst item, is_starting_room (snd item), discovery_order (snd item))) (rooms self)"

definition summary_ok :: "(string \<times> bool \<times> int) list \<Rightarrow> int \<Rightarrow> string option \<Rightarrow> bool" where
  "summary_ok s n sid =
     (n = int (length s) \<and> list_all (\<lambda>item. snd (snd item) \<le> n) s \<and>
      (s \<noteq> [] \<longrightarrow>
        (case sid of
           None \<Rightarrow> False
         | Some k \<Rightarrow>
            (case map_of s k of
               None \<Rightarrow> False
             | Some fo \<Rightarrow>
                 if fst fo
                 then list_all (\<lambda>item. fst (snd item) \<longrightarrow> snd (snd item) \<le> snd fo) s
                 else list_all (\<lambda>item. \<not> fst (snd item)) s))))"

definition store_ok :: "WorldMap \<Rightarrow> bool" where
  "store_ok self = summary_ok (room_summary self) (discovery_count self) (starting_room_id self)"

text \<open>Concrete stores and records on which the theorems are instantiated.\<close>

definition example_store :: WorldMap where
  "example_store = run_calls WorldMap_init
     [AddRoom ''a'' ''A'' ''d'' 10 8 True, AddRoom ''b'' ''B'' ''d'' 6 6 False,
      ConnectRooms ''a'' NORTH ''b'', DiscoverExit ''b'' EAST]"

definition three_room_store :: WorldMap where
  "three_room_store = run_calls WorldMap_init
     [AddRoom ''a'' ''A'' ''d'' 10 8 True, AddRoom ''c'' ''C'' ''d'' 6 6 False,
      AddRoom ''b'' ''B'' ''d'' 6 6 False, ConnectRooms ''a'' EAST ''c'']"



section \<open>Properties\<close>

subsection \<open>Reading and writing rooms\<close>

lemma map_fst_map_entry: "map fst (AList.map_entry k f xs) = map fst xs"
  by (induction xs) auto

lemma keys_mutate_room: "map fst (rooms (mutate_room self k f)) = map fst (rooms self)"
  by (simp add: mutate_room_def map_fst_map_entry)

lemma map_of_mutate_room:
  "map_of (rooms (mutate_room self k f)) k' =
     (if k' = k then map_option f (map_of (rooms self) k) else map_of (rooms self) k')"
  by (simp add: mutate_room_def map_of_map_entry split: option.split)

lemma mutate_room_fields:
  "discovery_count (mutate_room self k f) = discovery_count self"
  "starting_room_id (mutate_room self k f) = starting_room_id self"
  by (simp_all add: mutate_room_def)

lemma map_of_exits_add_exit:
  "map_of (exits (add_exit r d t)) d' =
     (if d' = d then Some \<lparr>direction = d, target_room_id = t, is_discovered = (t \<noteq> None)\<rparr>
      else map_of (exits r) d')"
  by (simp add: add_exit_def update_conv')

lemma get_reverse_direction_total: "\<exists>rev. get_reverse_direction d = Some rev \<and> rev \<noteq> d"
  by (cases d) simp_all

subsection \<open>The resolver moves the new room and changes nothing else of it\<close>

lemma moved_only_refl: "moved_only r r"
  by (simp add: moved_only_def)

lemma moved_only_trans: "moved_only r r' \<Longrightarrow> moved_only r' r'' \<Longrightarrow> moved_only r r''"
  unfolding moved_only_def by (cases r, cases r', cases r'') simp

lemma moved_only_exits: "moved_only r r' \<Longrightarrow> exits r' = exits r"
  unfolding moved_only_def by (cases r, cases r') simp

lemma moved_only_move: "moved_only r (move_room_away_from_conflict r b)"
  by (simp add: moved_only_def move_room_away_from_conflict_def Let_def split: prod.split)

lemma moved_only_scan: "moved_only r (fst (scan_rooms rs r))"
  by (induction rs) (simp_all add: moved_only_refl moved_only_move)

lemma moved_only_resolve_loop: "moved_only r (resolve_loop i self r)"
proof (induction i self r rule: resolve_loop.induct)
  case (1 iteration self new_room)
  show ?case
  proof (cases "iteration < 10")
    case False
    then show ?thesis by (subst resolve_loop.simps) (simp add: moved_only_refl)
  next
    case True
    obtain r1 cf where sc: "scan_rooms (map snd (rooms self)) new_room = (r1, cf)"
      by (cases "scan_rooms (map snd (rooms self)) new_room")
    have m1: "moved_only new_room r1"
      using moved_only_scan[of new_room "map snd (rooms self)"] sc by simp
    show ?thesis
    proof (cases cf)
      case False
      then show ?thesis using True sc m1 by (subst resolve_loop.simps) simp
    next
      case cft: True
      have "moved_only r1 (resolve_loop (iteration + 1) self r1)"
        using "1.IH"[OF True sc[symmetric]] cft by simp
      then show ?thesis using True sc m1 cft
        by (subst resolve_loop.simps) (auto intro: moved_only_trans)
    qed
  qed
qed

lemma moved_only_position: "moved_only t (position_room_relative_to self t r d)"
proof -
  obtain ox oy where
    dv: "direction_vectors ((width r + width t) / 2) ((height r + height t) / 2) d = (ox, oy)"
    by (cases "direction_vectors ((width r + width t) / 2) ((height r + height t) / 2) d")
  have "moved_only t (t\<lparr>x := x r + ox, y := y r + oy\<rparr>)"
    by (simp add: moved_only_def)
  then show ?thesis
    unfolding position_room_relative_to_def resolve_spatial_conflicts_def Let_def dv
    using moved_only_resolve_loop moved_only_trans by auto
qed

lemma resolve_loop_0:
  "resolve_loop 0 self r =
     (case scan_rooms (map snd (rooms self)) r of
        (new_room1, conflict_found) \<Rightarrow>
          if \<not> conflict_found then new_room1 else resolve_loop 1 self new_room1)"
  by (subst resolve_loop.simps) (simp split: prod.split)

subsection \<open>Connecting two rooms\<close>

text \<open>
  C6. From the empty store, after \<open>add_room\<close> of a starting room \<open>a\<close> of 10 by 8, \<open>add_room\<close>
  of a room \<open>b\<close> of 6 by 6 and \<open>connect_rooms a NORTH b\<close>, room \<open>b\<close> is at \<open>x = 0\<close>, \<open>y = 7\<close>:
  the two rooms touch along an edge, which is no overlap, so the resolver leaves \<open>b\<close> where
  the placement put it. Names and descriptions are arbitrary.
\<close>

theorem scenario_north_placement:
  "\<exists>m ra rb. connect_rooms
      (snd (add_room (snd (add_room WorldMap_init ''a'' name_a descr_a 10 8 True))
         ''b'' name_b descr_b 6 6 False))
      ''a'' NORTH ''b'' = Inr m \<and>
     map_of (rooms m) ''a'' = Some ra \<and> map_of (rooms m) ''b'' = Some rb \<and>
     x rb = 0 \<and> y rb = 7 \<and> \<not> rooms_overlap rb ra"
  by (simp add: add_room_def WorldMap_init_def connect_rooms_def mutate_room_def add_exit_def
      position_room_relative_to_def resolve_spatial_conflicts_def resolve_loop_0
      rooms_overlap_def Let_def)

subsection \<open>More on association lists\<close>

lemma update_fresh: "map_of al k = None \<Longrightarrow> AList.update k v al = al @ [(k, v)]"
  by (induction al) (auto split: if_splits)

lemma update_fresh_keys:
  "k \<notin> fst ` set al \<Longrightarrow> AList.update k v al = al @ [(k, v)]"
  by (rule update_fresh) (simp add: map_of_eq_None_iff)

lemma map_entry_append:
  "k \<notin> fst ` set xs \<Longrightarrow> AList.map_entry k f (xs @ (k, v) # ys) = xs @ (k, f v) # ys"
  by (induction xs) auto

lemma map_of_append_fresh:
  "k \<notin> fst ` set xs \<Longrightarrow> map_of (xs @ (k, v) # ys) k = Some v"
  by (induction xs) auto

lemma map_of_keys_eq:
  assumes "map fst xs = map fst ys" and "map_of xs k = Some v"
  shows "\<exists>w. map_of ys k = Some w"
proof -
  have "k \<in> set (map fst xs)" using assms(2) by (metis map_of_eq_None_iff option.distinct(1) set_map)
  then have "k \<in> fst ` set ys" using assms(1) by (metis set_map)
  then show ?thesis by (metis map_of_eq_None_iff option.exhaust)
qed

lemma map_of_map_snd:
  "map_of (map (\<lambda>item. (fst item, g (snd item))) xs) k = map_option g (map_of xs k)"
  by (induction xs) auto

lemma list_all_map_entry:
  assumes "list_all (\<lambda>item. Q (snd item)) xs"
    and "\<And>v. map_of xs k = Some v \<Longrightarrow> Q v \<Longrightarrow> Q (f v)"
  shows "list_all (\<lambda>item. Q (snd item)) (AList.map_entry k f xs)"
  using assms by (induction xs) auto

lemma summary_map_entry:
  assumes "\<And>v. map_of xs k = Some v \<Longrightarrow> g (f v) = g v"
  shows "map (\<lambda>item. (fst item, g (snd item))) (AList.map_entry k f xs) =
     map (\<lambda>item. (fst item, g (snd item))) xs"
  using assms by (induction xs) auto

subsection \<open>What \<open>connect_rooms\<close> leaves unchanged\<close>

lemma connect_rooms_result:
  assumes "connect_rooms self a d b = Inr m"
  shows "\<exists>rev fr tr. get_reverse_direction d = Some rev \<and>
     map_of (rooms (write_exits self a d rev b)) a = Some fr \<and>
     map_of (rooms (write_exits self a d rev b)) b = Some tr \<and>
     m = (if x tr = 0 \<and> y tr = 0 \<and> \<not> is_starting_room tr
          then mutate_room (write_exits self a d rev b) b
                 (\<lambda>_. position_room_relative_to (write_exits self a d rev b) tr fr d)
          else write_exits self a d rev b)"
proof -
  obtain rev where rev: "get_reverse_direction d = Some rev"
    using get_reverse_direction_total by blast
  show ?thesis
    using assms rev
    by (auto simp: connect_rooms_def Let_def write_exits_def split: if_splits option.splits)
qed

lemma map_of_write_exits:
  "map_of (rooms (write_exits self a d rv b)) k =
     (if k = b then map_option (\<lambda>to_room. add_exit to_room rv (Some a))
         (if b = a
          then map_option (\<lambda>from_room. add_exit from_room d (Some b)) (map_of (rooms self) a)
          else map_of (rooms self) b)
       else if k = a
         then map_option (\<lambda>from_room. add_exit from_room d (Some b)) (map_of (rooms self) a)
       else map_of (rooms self) k)"
  by (simp add: write_exits_def map_of_mutate_room)

lemma same_record_refl: "same_record r r"
  by (simp add: same_record_def)

lemma same_record_add_exit: "same_record r r' \<Longrightarrow> same_record r (add_exit r' d t)"
  unfolding same_record_def add_exit_def by (cases r, cases r') simp

lemma same_record_moved: "same_record r r' \<Longrightarrow> moved_only r' r'' \<Longrightarrow> same_record r r''"
  unfolding same_record_def moved_only_def by (cases r, cases r', cases r'') simp

lemma same_record_sel:
  "same_record r r' \<Longrightarrow> id' r' = id' r \<and> name r' = name r \<and> description r' = description r \<and>
     width r' = width r \<and> height r' = height r \<and> is_starting_room r' = is_starting_room r \<and>
     discovery_order r' = discovery_order r"
  unfolding same_record_def by (cases r, cases r') simp

lemma add_exit_sel: "x (add_exit r d t) = x r" "y (add_exit r d t) = y r"
  "is_starting_room (add_exit r d t) = is_starting_room r"
  by (simp_all add: add_exit_def)

lemma write_exits_room:
  assumes "map_of (rooms self) k = Some r"
  shows "\<exists>r'. map_of (rooms (write_exits self a d rv b)) k = Some r' \<and> same_record r r' \<and>
     x r' = x r \<and> y r' = y r \<and> (k \<noteq> a \<and> k \<noteq> b \<longrightarrow> r' = r)"
  using assms
  by (auto simp: map_of_write_exits add_exit_sel same_record_add_exit same_record_refl)

lemma connect_rooms_present:
  assumes a: "map_of (rooms self) a = Some ra" and b: "map_of (rooms self) b = Some rb"
    and rv: "get_reverse_direction d = Some rv"
  shows "\<exists>fr tr. map_of (rooms (write_exits self a d rv b)) a = Some fr \<and>
     map_of (rooms (write_exits self a d rv b)) b = Some tr \<and>
     connect_rooms self a d b = Inr
       (if x tr = 0 \<and> y tr = 0 \<and> \<not> is_starting_room tr
        then mutate_room (write_exits self a d rv b) b
               (\<lambda>_. position_room_relative_to (write_exits self a d rv b) tr fr d)
        else write_exits self a d rv b)"
proof -
  obtain fr where fr: "map_of (rooms (write_exits self a d rv b)) a = Some fr"
    using write_exits_room[OF a] by blast
  obtain tr where tr: "map_of (rooms (write_exits self a d rv b)) b = Some tr"
    using write_exits_room[OF b] by blast
  have "connect_rooms self a d b = Inr
       (if x tr = 0 \<and> y tr = 0 \<and> \<not> is_starting_room tr
        then mutate_room (write_exits self a d rv b) b
               (\<lambda>_. position_room_relative_to (write_exits self a d rv b) tr fr d)
        else write_exits self a d rv b)"
    using a b rv fr tr
    by (simp add: connect_rooms_def Let_def write_exits_def[symmetric])
  then show ?thesis using fr tr by blast
qed

lemma connect_rooms_room:
  assumes c: "connect_rooms self a d b = Inr m" and k: "map_of (rooms self) k = Some r"
  shows "\<exists>r'. map_of (rooms m) k = Some r' \<and> same_record r r' \<and>
     (k \<noteq> b \<or> is_starting_room r \<longrightarrow> x r' = x r \<and> y r' = y r) \<and>
     (k \<noteq> a \<and> k \<noteq> b \<longrightarrow> r' = r)"
proof -
  obtain rev fr tr where rev: "get_reverse_direction d = Some rev"
    and fr: "map_of (rooms (write_exits self a d rev b)) a = Some fr"
    and tr: "map_of (rooms (write_exits self a d rev b)) b = Some tr"
    and m: "m = (if x tr = 0 \<and> y tr = 0 \<and> \<not> is_starting_room tr
          then mutate_room (write_exits self a d rev b) b
                 (\<lambda>_. position_room_relative_to (write_exits self a d rev b) tr fr d)
          else write_exits self a d rev b)"
    using connect_rooms_result[OF c] by blast
  obtain r1 where r1: "map_of (rooms (write_exits self a d rev b)) k = Some r1"
    and s1: "same_record r r1" and x1: "x r1 = x r" "y r1 = y r"
    and o1: "k \<noteq> a \<and> k \<noteq> b \<longrightarrow> r1 = r"
    using write_exits_room[OF k] by blast
  show ?thesis
  proof (cases "x tr = 0 \<and> y tr = 0 \<and> \<not> is_starting_room tr")
    case False
    have "m = write_exits self a d rev b" by (simp only: m if_not_P[OF False])
    then show ?thesis using r1 s1 x1 o1 by simp
  next
    case True
    have m': "m = mutate_room (write_exits self a d rev b) b
        (\<lambda>_. position_room_relative_to (write_exits self a d rev b) tr fr d)"
      by (simp only: m if_P[OF True])
    show ?thesis
    proof (cases "k = b")
      case False
      then show ?thesis using m' r1 s1 x1 o1 by (simp add: map_of_mutate_room)
    next
      case kb: True
      then have "r1 = tr" using r1 tr by simp
      then have ns: "\<not> is_starting_room r" using True s1 same_record_sel by blast
      have "same_record r (position_room_relative_to (write_exits self a d rev b) tr fr d)"
        using s1 \<open>r1 = tr\<close> moved_only_position same_record_moved by blast
      then show ?thesis using kb m' tr ns by (simp add: map_of_mutate_room)
    qed
  qed
qed

lemma connect_rooms_store:
  assumes c: "connect_rooms self a d b = Inr m"
  shows "map fst (rooms m) = map fst (rooms self) \<and> discovery_count m = discovery_count self \<and>
     starting_room_id m = starting_room_id self"
  using connect_rooms_result[OF c]
  by (auto simp: write_exits_def keys_mutate_room mutate_room_fields split: if_splits)

lemma get_reverse_direction_spec:
  "get_reverse_direction d = Some (spec_reverse d) \<and> spec_reverse d \<noteq> d"
  by (cases d) simp_all

text \<open>
  C2. For every store that contains rooms with ids \<open>a\<close> and \<open>b\<close> and every direction \<open>d\<close>,
  \<open>connect_rooms\<close> returns normally, and afterwards room \<open>a\<close> has in direction \<open>d\<close> an exit
  with target \<open>b\<close> that is discovered, and room \<open>b\<close> has in the opposite direction
  \<open>spec_reverse d\<close> an exit with target \<open>a\<close> that is discovered, whatever exits were in
  these two slots before.
\<close>

theorem connect_rooms_exits:
  assumes a: "map_of (rooms self) a \<noteq> None" and b: "map_of (rooms self) b \<noteq> None"
  shows "\<exists>m ra rb. connect_rooms self a d b = Inr m \<and>
     map_of (rooms m) a = Some ra \<and>
     map_of (exits ra) d = Some \<lparr>direction = d, target_room_id = Some b, is_discovered = True\<rparr> \<and>
     map_of (rooms m) b = Some rb \<and>
     map_of (exits rb) (spec_reverse d) =
       Some \<lparr>direction = spec_reverse d, target_room_id = Some a, is_discovered = True\<rparr>"
proof -
  define rv where "rv = spec_reverse d"
  have rev: "get_reverse_direction d = Some rv" "rv \<noteq> d"
    using get_reverse_direction_spec[of d] by (simp_all add: rv_def)
  obtain ra0 rb0 where ra0: "map_of (rooms self) a = Some ra0"
    and rb0: "map_of (rooms self) b = Some rb0"
    using a b by auto
  obtain fr tr where fr: "map_of (rooms (write_exits self a d rv b)) a = Some fr"
    and tr: "map_of (rooms (write_exits self a d rv b)) b = Some tr"
    and c: "connect_rooms self a d b = Inr
       (if x tr = 0 \<and> y tr = 0 \<and> \<not> is_starting_room tr
        then mutate_room (write_exits self a d rv b) b
               (\<lambda>_. position_room_relative_to (write_exits self a d rv b) tr fr d)
        else write_exits self a d rv b)"
    using connect_rooms_present[OF ra0 rb0 rev(1)] by blast
  have fr_exit: "map_of (exits fr) d =
      Some \<lparr>direction = d, target_room_id = Some b, is_discovered = True\<rparr>"
    using fr ra0 rb0 rev by (cases "a = b") (auto simp: map_of_write_exits map_of_exits_add_exit)
  have tr_exit: "map_of (exits tr) rv =
      Some \<lparr>direction = rv, target_room_id = Some a, is_discovered = True\<rparr>"
    using tr ra0 rb0 rev by (cases "a = b") (auto simp: map_of_write_exits map_of_exits_add_exit)
  have tr_exit': "map_of (exits tr) d =
      Some \<lparr>direction = d, target_room_id = Some b, is_discovered = True\<rparr>"
    if "a = b" using that fr tr fr_exit by simp
  show ?thesis
  proof (cases "x tr = 0 \<and> y tr = 0 \<and> \<not> is_starting_room tr")
    case False
    have "connect_rooms self a d b = Inr (write_exits self a d rv b)"
      by (simp only: c if_not_P[OF False])
    then show ?thesis using fr tr fr_exit tr_exit unfolding rv_def by blast
  next
    case True
    define p where "p = position_room_relative_to (write_exits self a d rv b) tr fr d"
    define m where "m = mutate_room (write_exits self a d rv b) b (\<lambda>_. p)"
    have cm: "connect_rooms self a d b = Inr m" by (simp only: c if_P[OF True] m_def p_def)
    have pe: "exits p = exits tr" unfolding p_def by (rule moved_only_exits[OF moved_only_position])
    have mb: "map_of (rooms m) b = Some p" by (simp add: m_def map_of_mutate_room tr)
    have ma: "\<exists>ra. map_of (rooms m) a = Some ra \<and>
        map_of (exits ra) d = Some \<lparr>direction = d, target_room_id = Some b, is_discovered = True\<rparr>"
    proof (cases "a = b")
      case True
      then show ?thesis using mb pe tr_exit' by simp
    next
      case False
      then show ?thesis using fr fr_exit by (simp add: m_def map_of_mutate_room)
    qed
    show ?thesis using cm ma mb pe tr_exit unfolding rv_def by auto
  qed
qed

theorem connect_rooms_exits_witness:
  "\<exists>m ra rb. connect_rooms
      (snd (add_room (snd (add_room WorldMap_init ''a'' ''A'' ''d'' 10 8 True))
         ''b'' ''B'' ''d'' 6 6 False))
      ''a'' EAST ''b'' = Inr m \<and>
     map_of (rooms m) ''a'' = Some ra \<and>
     map_of (exits ra) EAST =
       Some \<lparr>direction = EAST, target_room_id = Some ''b'', is_discovered = True\<rparr> \<and>
     map_of (rooms m) ''b'' = Some rb \<and>
     map_of (exits rb) WEST =
       Some \<lparr>direction = WEST, target_room_id = Some ''a'', is_discovered = True\<rparr>"
  using connect_rooms_exits[of "snd (add_room (snd (add_room WorldMap_init ''a'' ''A'' ''d'' 10 8 True))
         ''b'' ''B'' ''d'' 6 6 False)" "''a''" "''b''" EAST]
  by (simp add: add_room_def WorldMap_init_def Let_def)

lemma example_store_value:
  "example_store =
     \<lparr>rooms =
        [(''a'', \<lparr>id' = ''a'', name = ''A'', description = ''d'', width = 10, height = 8,
                 x = 0, y = 0,
                 exits = [(NORTH, \<lparr>direction = NORTH, target_room_id = Some ''b'',
                                    is_discovered = True\<rparr>)],
                 is_starting_room = True, discovery_order = 1\<rparr>),
         (''b'', \<lparr>id' = ''b'', name = ''B'', description = ''d'', width = 6, height = 6,
                 x = 0, y = 7,
                 exits = [(SOUTH, \<lparr>direction = SOUTH, target_room_id = Some ''a'',
                                    is_discovered = True\<rparr>),
                          (EAST, \<lparr>direction = EAST, target_room_id = None,
                                   is_discovered = False\<rparr>)],
                 is_starting_room = False, discovery_order = 2\<rparr>)],
      discovery_count = 2, starting_room_id = Some ''a''\<rparr>"
  by (simp add: example_store_def add_room_def WorldMap_init_def connect_rooms_def
      mutate_room_def add_exit_def discover_exit_def position_room_relative_to_def
      resolve_spatial_conflicts_def resolve_loop_0 rooms_overlap_def Let_def)

lemma resolve_loop_1:
  "resolve_loop (Suc 0) self r =
     (case scan_rooms (map snd (rooms self)) r of
        (new_room1, conflict_found) \<Rightarrow>
          if \<not> conflict_found then new_room1 else resolve_loop (Suc (Suc 0)) self new_room1)"
  by (subst resolve_loop.simps) (simp split: prod.split)

lemma three_room_store_value:
  "three_room_store =
     \<lparr>rooms =
        [(''a'', \<lparr>id' = ''a'', name = ''A'', description = ''d'', width = 10, height = 8,
                 x = 0, y = 0,
                 exits = [(EAST, \<lparr>direction = EAST, target_room_id = Some ''c'',
                                   is_discovered = True\<rparr>)],
                 is_starting_room = True, discovery_order = 1\<rparr>),
         (''c'', \<lparr>id' = ''c'', name = ''C'', description = ''d'', width = 6, height = 6,
                 x = 8, y = 0,
                 exits = [(WEST, \<lparr>direction = WEST, target_room_id = Some ''a'',
                                   is_discovered = True\<rparr>)],
                 is_starting_room = False, discovery_order = 2\<rparr>),
         (''b'', \<lparr>id' = ''b'', name = ''B'', description = ''d'', width = 6, height = 6,
                 x = 0, y = 0, exits = [], is_starting_room = False, discovery_order = 3\<rparr>)],
      discovery_count = 3, starting_room_id = Some ''a''\<rparr>"
  by (simp add: three_room_store_def add_room_def WorldMap_init_def connect_rooms_def
      mutate_room_def add_exit_def position_room_relative_to_def
      resolve_spatial_conflicts_def resolve_loop_0 rooms_overlap_def Let_def)

lemma three_room_store_connect:
  "\<exists>m rb. connect_rooms three_room_store ''a'' EAST ''b'' = Inr m \<and>
     map_of (rooms m) ''b'' = Some rb \<and> x rb = 15 \<and> y rb = 0"
  by (simp add: three_room_store_value connect_rooms_def
      mutate_room_def add_exit_def position_room_relative_to_def
      resolve_spatial_conflicts_def resolve_loop_0 resolve_loop_1 rooms_overlap_def
      move_room_away_from_conflict_def Let_def)

text \<open>
  C10, as amended. After \<open>connect_rooms self a d b\<close> has returned, the store has the same
  keys in the same order, the same discovery count and the same starting room id. Every
  room keeps all its fields but its exits and its coordinates, so its width and height
  too; every room other than the to-room \<open>b\<close> keeps its coordinates, so the from-room keeps
  them when \<open>a \<noteq> b\<close>; every room other than the two endpoints is unchanged. (When
  \<open>a = b\<close> the from-room is the to-room and may be placed.)
\<close>

theorem connect_rooms_frame:
  assumes "connect_rooms self a d b = Inr m"
  shows "map fst (rooms m) = map fst (rooms self) \<and> discovery_count m = discovery_count self \<and>
     starting_room_id m = starting_room_id self \<and>
     (\<forall>k r. map_of (rooms self) k = Some r \<longrightarrow>
        (\<exists>r'. map_of (rooms m) k = Some r' \<and>
           r' = r\<lparr>exits := exits r', x := x r', y := y r'\<rparr> \<and>
           width r' = width r \<and> height r' = height r \<and>
           (k \<noteq> b \<longrightarrow> x r' = x r \<and> y r' = y r) \<and>
           (k \<noteq> a \<and> k \<noteq> b \<longrightarrow> r' = r)))"
proof -
  have "\<exists>r'. map_of (rooms m) k = Some r' \<and>
           r' = r\<lparr>exits := exits r', x := x r', y := y r'\<rparr> \<and>
           width r' = width r \<and> height r' = height r \<and>
           (k \<noteq> b \<longrightarrow> x r' = x r \<and> y r' = y r) \<and>
           (k \<noteq> a \<and> k \<noteq> b \<longrightarrow> r' = r)" if h: "map_of (rooms self) k = Some r" for k r
  proof -
    obtain r' where r': "map_of (rooms m) k = Some r'" and s: "same_record r r'"
      and c: "k \<noteq> b \<longrightarrow> x r' = x r \<and> y r' = y r" and o: "k \<noteq> a \<and> k \<noteq> b \<longrightarrow> r' = r"
      using connect_rooms_room[OF assms h] by blast
    have e: "r' = r\<lparr>exits := exits r', x := x r', y := y r'\<rparr>"
      using s unfolding same_record_def .
    have g: "width r' = width r \<and> height r' = height r"
      using same_record_sel[OF s] by simp
    show ?thesis using r' e g c o by blast
  qed
  then show ?thesis using connect_rooms_store[OF assms] by blast
qed

theorem connect_rooms_frame_witness:
  "\<exists>m ra rc rb rc0.
     connect_rooms three_room_store ''a'' EAST ''b'' = Inr m \<and>
     map fst (rooms m) = [''a'', ''c'', ''b''] \<and>
     map_of (rooms m) ''a'' = Some ra \<and> (x ra, y ra, width ra, height ra) = (0, 0, 10, 8) \<and>
     map_of (rooms three_room_store) ''c'' = Some rc0 \<and> map_of (rooms m) ''c'' = Some rc \<and>
     rc = rc0 \<and> (x rc, y rc) = (8, 0) \<and>
     map_of (rooms m) ''b'' = Some rb \<and> (x rb, y rb, width rb, height rb) = (15, 0, 6, 6)"
proof -
  obtain m rb where c: "connect_rooms three_room_store ''a'' EAST ''b'' = Inr m"
    and b: "map_of (rooms m) ''b'' = Some rb" and bx: "x rb = 15" "y rb = 0"
    using three_room_store_connect by blast
  obtain ra0 where a0: "map_of (rooms three_room_store) ''a'' = Some ra0"
    and ga: "x ra0 = 0" "y ra0 = 0" "width ra0 = 10" "height ra0 = 8"
    by (simp add: three_room_store_value)
  obtain rc0 where c0: "map_of (rooms three_room_store) ''c'' = Some rc0"
    and gc: "x rc0 = 8" "y rc0 = 0"
    by (simp add: three_room_store_value)
  obtain rb0 where b0: "map_of (rooms three_room_store) ''b'' = Some rb0"
    and gb: "width rb0 = 6" "height rb0 = 6"
    by (simp add: three_room_store_value)
  have keys: "map fst (rooms three_room_store) = [''a'', ''c'', ''b'']"
    by (simp add: three_room_store_value)
  note f = connect_rooms_frame[OF c]
  have fk: "map fst (rooms m) = [''a'', ''c'', ''b'']" using f keys by simp
  obtain ra where ra: "map_of (rooms m) ''a'' = Some ra" "width ra = width ra0"
    "height ra = height ra0" "x ra = x ra0" "y ra = y ra0"
    using f a0 by fastforce
  obtain rc where rc: "map_of (rooms m) ''c'' = Some rc" "rc = rc0"
    using f c0 by fastforce
  obtain rb' where rb': "map_of (rooms m) ''b'' = Some rb'" "width rb' = width rb0"
    "height rb' = height rb0"
    using f b0 by blast
  have "rb' = rb" using rb' b by simp
  then show ?thesis using c fk ra rc rb' b bx ga gc gb c0 by simp
qed

text \<open>
  The claim C10 as it is stated fails for a room connected to itself: the from-room is then
  the room that is placed. Room \<open>b\<close>, 10 by 10 and not yet placed, moves from (0, 0) to
  (0, 10).
\<close>

theorem connect_rooms_self_counterexample:
  "\<exists>self m r r'.
     self = snd (add_room (snd (add_room WorldMap_init ''a'' ''A'' ''d'' 10 8 True))
         ''b'' ''B'' ''d'' 10 10 False) \<and>
     connect_rooms self ''b'' NORTH ''b'' = Inr m \<and>
     map_of (rooms self) ''b'' = Some r \<and> map_of (rooms m) ''b'' = Some r' \<and>
     (x r, y r) = (0, 0) \<and> (x r', y r') = (0, 10)"
  by (simp add: add_room_def WorldMap_init_def connect_rooms_def mutate_room_def add_exit_def
      position_room_relative_to_def resolve_spatial_conflicts_def resolve_loop_0
      rooms_overlap_def Let_def)

subsection \<open>The starting room\<close>

lemma connect_rooms_to_starting_room:
  assumes a: "map_of (rooms self) a = Some ra" and b: "map_of (rooms self) b = Some rb"
    and rv: "get_reverse_direction d = Some rv" and st: "is_starting_room rb"
  shows "connect_rooms self a d b = Inr (write_exits self a d rv b)"
proof -
  obtain fr tr where tr: "map_of (rooms (write_exits self a d rv b)) b = Some tr"
    and c: "connect_rooms self a d b = Inr
       (if x tr = 0 \<and> y tr = 0 \<and> \<not> is_starting_room tr
        then mutate_room (write_exits self a d rv b) b
               (\<lambda>_. position_room_relative_to (write_exits self a d rv b) tr fr d)
        else write_exits self a d rv b)"
    using connect_rooms_present[OF a b rv] by blast
  obtain r' where "map_of (rooms (write_exits self a d rv b)) b = Some r'" "same_record rb r'"
    using write_exits_room[OF b] by blast
  then have "is_starting_room tr" using tr st same_record_sel by fastforce
  then show ?thesis using c by simp
qed

lemma connect_rooms_starting_room_fixed:
  assumes c: "connect_rooms self a d b = Inr m" and k: "map_of (rooms self) k = Some r"
    and st: "is_starting_room r"
  shows "\<exists>r'. map_of (rooms m) k = Some r' \<and> is_starting_room r' \<and> x r' = x r \<and> y r' = y r"
proof -
  obtain r' where r': "map_of (rooms m) k = Some r'" and s: "same_record r r'"
    and xy: "k \<noteq> b \<or> is_starting_room r \<longrightarrow> x r' = x r \<and> y r' = y r"
    using connect_rooms_room[OF c k] by blast
  have "is_starting_room r'" using same_record_sel[OF s] st by simp
  then show ?thesis using r' xy st by blast
qed

lemma starting_at_origin_init: "starting_at_origin WorldMap_init"
  by (simp add: starting_at_origin_def WorldMap_init_def)

lemma starting_at_origin_add_room:
  "starting_at_origin self \<Longrightarrow> starting_at_origin (snd (add_room self k nm descr w h st))"
  by (auto simp: starting_at_origin_def add_room_def Let_def update_conv' split: option.splits if_splits)

lemma starting_at_origin_discover_exit:
  "starting_at_origin self \<Longrightarrow> starting_at_origin (discover_exit self k d)"
  by (auto simp: starting_at_origin_def discover_exit_def map_of_mutate_room add_exit_sel
      split: if_splits)

lemma starting_at_origin_connect_rooms:
  assumes j: "starting_at_origin self" and c: "connect_rooms self a d b = Inr m"
  shows "starting_at_origin m"
  unfolding starting_at_origin_def
proof (intro allI impI)
  fix k r' assume r': "map_of (rooms m) k = Some r'" and st: "is_starting_room r'"
  have keys: "map fst (rooms m) = map fst (rooms self)" using connect_rooms_store[OF c] by simp
  obtain r where r: "map_of (rooms self) k = Some r" using map_of_keys_eq[OF keys r'] by blast
  obtain r2 where r2: "map_of (rooms m) k = Some r2" and s: "same_record r r2"
    and xy: "k \<noteq> b \<or> is_starting_room r \<longrightarrow> x r2 = x r \<and> y r2 = y r"
    using connect_rooms_room[OF c r] by blast
  have e: "r2 = r'" using r2 r' by simp
  have "is_starting_room r" using same_record_sel[OF s] st e by simp
  then show "x r' = 0 \<and> y r' = 0" using xy e j r unfolding starting_at_origin_def by metis
qed

lemma starting_at_origin_perform:
  "starting_at_origin self \<Longrightarrow> perform self c = Inr m \<Longrightarrow> starting_at_origin m"
  by (cases c) (auto simp: starting_at_origin_add_room starting_at_origin_discover_exit
      starting_at_origin_connect_rooms)

lemma starting_at_origin_run_calls:
  "starting_at_origin self \<Longrightarrow> starting_at_origin (run_calls self cs)"
proof (induction cs arbitrary: self)
  case Nil
  then show ?case by simp
next
  case (Cons c cs)
  show ?case
  proof (cases "perform self c")
    case (Inl e)
    then show ?thesis using Cons by simp
  next
    case (Inr m)
    then show ?thesis using Cons starting_at_origin_perform by simp
  qed
qed

text \<open>
  What the guard of \<open>connect_rooms\<close> achieves. It reads the flag \<^verbatim>\<open>is_starting_room\<close>: after
  every sequence of calls from the empty store each room with the flag is at (0, 0); in
  any store \<open>connect_rooms\<close> leaves the coordinates and the flag of each such room as they
  are; and when the to-room has the flag, \<open>connect_rooms\<close> returns the store as it is after
  the two exit writes, with no placement and no conflict resolution.
\<close>

lemma flagged_room_never_moves:
  "(\<forall>k r. map_of (rooms (run_calls WorldMap_init cs)) k = Some r \<longrightarrow> is_starting_room r \<longrightarrow>
      x r = 0 \<and> y r = 0) \<and>
   (\<forall>m k r. connect_rooms self a d b = Inr m \<longrightarrow> map_of (rooms self) k = Some r \<longrightarrow>
      is_starting_room r \<longrightarrow>
      (\<exists>r'. map_of (rooms m) k = Some r' \<and> is_starting_room r' \<and> x r' = x r \<and> y r' = y r)) \<and>
   (\<forall>ra rb rv. map_of (rooms self) a = Some ra \<longrightarrow> map_of (rooms self) b = Some rb \<longrightarrow>
      is_starting_room rb \<longrightarrow> get_reverse_direction d = Some rv \<longrightarrow>
      connect_rooms self a d b = Inr (write_exits self a d rv b))"
proof (intro conjI)
  show "\<forall>k r. map_of (rooms (run_calls WorldMap_init cs)) k = Some r \<longrightarrow> is_starting_room r \<longrightarrow>
      x r = 0 \<and> y r = 0"
    using starting_at_origin_run_calls[OF starting_at_origin_init, of cs]
    unfolding starting_at_origin_def .
  show "\<forall>m k r. connect_rooms self a d b = Inr m \<longrightarrow> map_of (rooms self) k = Some r \<longrightarrow>
      is_starting_room r \<longrightarrow>
      (\<exists>r'. map_of (rooms m) k = Some r' \<and> is_starting_room r' \<and> x r' = x r \<and> y r' = y r)"
    using connect_rooms_starting_room_fixed by blast
  show "\<forall>ra rb rv. map_of (rooms self) a = Some ra \<longrightarrow> map_of (rooms self) b = Some rb \<longrightarrow>
      is_starting_room rb \<longrightarrow> get_reverse_direction d = Some rv \<longrightarrow>
      connect_rooms self a d b = Inr (write_exits self a d rv b)"
    using connect_rooms_to_starting_room by blast
qed

text \<open>
  C9. The code at the failing input. \<open>add_room\<close> makes the first room of an empty store the
  starting room also when the call leaves the flag at its default: it positions the room
  at the origin and sets \<^verbatim>\<open>starting_room_id\<close> to its id, but it does not set the room's flag.
  The guard of \<open>connect_rooms\<close> reads the flag, so connecting room \<open>b\<close> to this room \<open>a\<close>
  places \<open>a\<close> anew and moves it from (0, 0) to (0, 7); the claim says that the starting room
  is never moved.
\<close>

theorem first_room_is_moved:
  "\<exists>self m r r'.
     self = snd (add_room (snd (add_room WorldMap_init ''a'' ''A'' ''d'' 10 8 False))
         ''b'' ''B'' ''d'' 6 6 False) \<and>
     starting_room_id self = Some ''a'' \<and>
     connect_rooms self ''b'' NORTH ''a'' = Inr m \<and>
     map_of (rooms self) ''a'' = Some r \<and> map_of (rooms m) ''a'' = Some r' \<and>
     \<not> is_starting_room r \<and> (x r, y r) = (0, 0) \<and> (x r', y r') = (0, 7)"
  by (simp add: add_room_def WorldMap_init_def connect_rooms_def mutate_room_def add_exit_def
      position_room_relative_to_def resolve_spatial_conflicts_def resolve_loop_0
      rooms_overlap_def Let_def)

subsection \<open>Which room \<^verbatim>\<open>starting_room_id\<close> names\<close>

lemma room_summary_mutate_room:
  assumes "\<And>v. map_of (rooms self) k = Some v \<Longrightarrow>
     is_starting_room (f v) = is_starting_room v \<and> discovery_order (f v) = discovery_order v"
  shows "room_summary (mutate_room self k f) = room_summary self"
  unfolding room_summary_def mutate_room_def
  using summary_map_entry[of "rooms self" k "\<lambda>r. (is_starting_room r, discovery_order r)" f] assms
  by simp

lemma add_exit_summary:
  "is_starting_room (add_exit r d t) = is_starting_room r \<and>
   discovery_order (add_exit r d t) = discovery_order r"
  by (simp add: add_exit_def)

lemma room_summary_write_exits: "room_summary (write_exits self a d rv b) = room_summary self"
  by (simp add: write_exits_def room_summary_mutate_room add_exit_summary)

lemma moved_only_summary:
  "moved_only r r' \<Longrightarrow> is_starting_room r' = is_starting_room r \<and>
     discovery_order r' = discovery_order r"
  unfolding moved_only_def by (cases r, cases r') simp

lemma room_summary_connect_rooms:
  assumes c: "connect_rooms self a d b = Inr m"
  shows "room_summary m = room_summary self"
proof -
  obtain rv fr tr where tr: "map_of (rooms (write_exits self a d rv b)) b = Some tr"
    and m: "m = (if x tr = 0 \<and> y tr = 0 \<and> \<not> is_starting_room tr
          then mutate_room (write_exits self a d rv b) b
                 (\<lambda>_. position_room_relative_to (write_exits self a d rv b) tr fr d)
          else write_exits self a d rv b)"
    using connect_rooms_result[OF c] by blast
  have "room_summary (mutate_room (write_exits self a d rv b) b
      (\<lambda>_. position_room_relative_to (write_exits self a d rv b) tr fr d)) =
      room_summary (write_exits self a d rv b)"
    by (rule room_summary_mutate_room) (simp add: tr moved_only_summary[OF moved_only_position])
  then show ?thesis using m by (simp add: room_summary_write_exits)
qed

lemma room_summary_discover_exit: "room_summary (discover_exit self k d) = room_summary self"
  by (simp add: discover_exit_def room_summary_mutate_room add_exit_summary)

lemma store_ok_init: "store_ok WorldMap_init"
  by (simp add: store_ok_def summary_ok_def room_summary_def WorldMap_init_def)

lemma map_of_summary:
  "map_of (room_summary self) k =
     map_option (\<lambda>r. (is_starting_room r, discovery_order r)) (map_of (rooms self) k)"
  unfolding room_summary_def by (rule map_of_map_snd)

lemma summary_ok_append:
  assumes ok: "summary_ok s n sid" and fresh: "map_of s k = None"
  shows "summary_ok (s @ [(k, st, n + 1)]) (n + 1) (if st \<or> s = [] then Some k else sid)"
proof -
  have len: "n = int (length s)" and ord: "list_all (\<lambda>item. snd (snd item) \<le> n) s"
    using ok unfolding summary_ok_def by blast+
  have ord1: "list_all (\<lambda>item. snd (snd item) \<le> n + 1) s"
    using ord by (induction s) auto
  have ord2: "list_all (\<lambda>item. fst (snd item) \<longrightarrow> snd (snd item) \<le> n + 1) s"
    using ord by (induction s) auto
  show ?thesis
  proof (cases "st \<or> s = []")
    case True
    then show ?thesis using len ord1 ord2 fresh
      by (auto simp: summary_ok_def map_add_def split: option.splits)
  next
    case False
    then obtain k0 fo where sid: "sid = Some k0" and k0: "map_of s k0 = Some fo"
      and rest: "if fst fo
                 then list_all (\<lambda>item. fst (snd item) \<longrightarrow> snd (snd item) \<le> snd fo) s
                 else list_all (\<lambda>item. \<not> fst (snd item)) s"
      using ok by (auto simp: summary_ok_def split: option.splits)
    have ne: "k0 \<noteq> k" using k0 fresh by auto
    show ?thesis using False len ord1 sid k0 rest ne
      by (auto simp: summary_ok_def map_add_def split: option.splits if_splits)
  qed
qed

lemma add_room_fresh:
  assumes "map_of (rooms self) k = None"
  shows "room_summary (snd (add_room self k nm descr w h st)) =
       room_summary self @ [(k, st, discovery_count self + 1)] \<and>
     discovery_count (snd (add_room self k nm descr w h st)) = discovery_count self + 1 \<and>
     starting_room_id (snd (add_room self k nm descr w h st)) =
       (if st \<or> rooms self = [] then Some k else starting_room_id self)"
  using assms by (auto simp: add_room_def Let_def update_fresh room_summary_def)

lemma store_ok_add_room:
  assumes "store_ok self"
  shows "store_ok (snd (add_room self k nm descr w h st))"
proof (cases "map_of (rooms self) k")
  case (Some r)
  then show ?thesis using assms by (simp add: add_room_def)
next
  case None
  have fresh: "map_of (room_summary self) k = None" by (simp add: map_of_summary None)
  have e: "(rooms self = []) = (room_summary self = [])" by (simp add: room_summary_def)
  show ?thesis
    unfolding store_ok_def
    using summary_ok_append[OF assms[unfolded store_ok_def] fresh, of st] add_room_fresh[OF None, of nm descr w h st] e
    by simp
qed

lemma store_ok_perform: "store_ok self \<Longrightarrow> perform self c = Inr m \<Longrightarrow> store_ok m"
proof (cases c)
  case (AddRoom k nm descr w h st)
  assume "store_ok self" "perform self c = Inr m"
  then show ?thesis using AddRoom store_ok_add_room by auto
next
  case (ConnectRooms a d b)
  assume "store_ok self" "perform self c = Inr m"
  then show ?thesis using ConnectRooms room_summary_connect_rooms connect_rooms_store
    by (simp add: store_ok_def)
next
  case (DiscoverExit k d)
  assume "store_ok self" "perform self c = Inr m"
  then show ?thesis using DiscoverExit room_summary_discover_exit
    by (auto simp: store_ok_def discover_exit_def mutate_room_fields)
qed

lemma store_ok_run_calls: "store_ok self \<Longrightarrow> store_ok (run_calls self cs)"
proof (induction cs arbitrary: self)
  case Nil
  then show ?case by simp
next
  case (Cons c cs)
  show ?case
  proof (cases "perform self c")
    case (Inl e)
    then show ?thesis using Cons by simp
  next
    case (Inr m)
    then show ?thesis using Cons store_ok_perform by simp
  qed
qed

lemma list_all_room_summary:
  "list_all P (room_summary self) =
     list_all (\<lambda>item. P (fst item, is_starting_room (snd item), discovery_order (snd item)))
       (rooms self)"
  by (simp add: room_summary_def list.pred_map comp_def)

lemma count_starting_summary:
  "count_starting self = length (filter (\<lambda>item. fst (snd item)) (room_summary self))"
  by (simp add: count_starting_def room_summary_def filter_map comp_def)

lemma keys_summary: "map fst (room_summary self) = map fst (rooms self)"
  by (simp add: room_summary_def)

lemma store_ok_names_last_flagged:
  assumes ok: "store_ok self" and pos: "0 < count_starting self"
  shows "names_last_flagged self"
proof -
  have flagged: "\<not> list_all (\<lambda>item. \<not> fst (snd item)) (room_summary self)"
    using pos by (auto simp: count_starting_summary filter_empty_conv list_all_iff)
  then have sne: "room_summary self \<noteq> []" by auto
  obtain k fo where sid: "starting_room_id self = Some k"
    and fo: "map_of (room_summary self) k = Some fo"
    and rest: "if fst fo
       then list_all (\<lambda>item. fst (snd item) \<longrightarrow> snd (snd item) \<le> snd fo) (room_summary self)
       else list_all (\<lambda>item. \<not> fst (snd item)) (room_summary self)"
    using ok sne unfolding store_ok_def summary_ok_def by (auto split: option.splits)
  obtain r where r: "map_of (rooms self) k = Some r"
    and fo': "fo = (is_starting_room r, discovery_order r)"
    using fo by (auto simp: map_of_summary)
  have f: "is_starting_room r" using rest flagged fo' by (auto split: if_splits)
  show ?thesis
    using sid r rest f unfolding names_last_flagged_def fo' list_all_room_summary
    by simp
qed

lemma perform_summary:
  assumes "perform self c = Inr m"
  shows "room_summary m =
     (case c of
        AddRoom k nm descr w h st \<Rightarrow>
          if k \<in> set (map fst (room_summary self)) then room_summary self
          else room_summary self @ [(k, st, discovery_count self + 1)]
      | ConnectRooms a d b \<Rightarrow> room_summary self
      | DiscoverExit k d \<Rightarrow> room_summary self)"
proof (cases c)
  case (AddRoom k nm descr w h st)
  show ?thesis
  proof (cases "map_of (rooms self) k")
    case None
    then have "k \<notin> set (map fst (room_summary self))"
      by (simp add: keys_summary map_of_eq_None_iff)
    then show ?thesis using assms AddRoom add_room_fresh[OF None, of nm descr w h st] by auto
  next
    case (Some r)
    then have "k \<in> set (map fst (room_summary self))"
      using map_of_eq_None_iff[of "rooms self" k] by (simp add: keys_summary)
    then show ?thesis using assms AddRoom Some by (auto simp: add_room_def)
  qed
next
  case (ConnectRooms a d b)
  then show ?thesis using assms room_summary_connect_rooms by simp
next
  case (DiscoverExit k d)
  then show ?thesis using assms room_summary_discover_exit by auto
qed

lemma count_starting_run_calls:
  "count_starting (run_calls self cs) =
     count_starting self + flagged_creations (map fst (room_summary self)) cs"
proof (induction cs arbitrary: self)
  case Nil
  then show ?case by simp
next
  case (Cons c cs)
  show ?case
  proof (cases "perform self c")
    case (Inl e)
    then obtain a d b where c: "c = ConnectRooms a d b" by (cases c) auto
    show ?thesis using Inl Cons.IH[of self] by (simp add: c)
  next
    case (Inr m)
    note s = perform_summary[OF Inr]
    show ?thesis
    proof (cases c)
      case (AddRoom k nm descr w h st)
      show ?thesis
      proof (cases "k \<in> set (map fst (room_summary self))")
        case True
        then have "room_summary m = room_summary self" using s AddRoom by simp
        then show ?thesis using Inr Cons.IH[of m] AddRoom True
          by (simp add: count_starting_summary)
      next
        case False
        then have "room_summary m = room_summary self @ [(k, st, discovery_count self + 1)]"
          using s AddRoom by simp
        then show ?thesis using Inr Cons.IH[of m] AddRoom False
          by (simp add: count_starting_summary)
      qed
    next
      case (ConnectRooms a d b)
      then have "room_summary m = room_summary self" using s by simp
      then show ?thesis using Inr Cons.IH[of m] ConnectRooms
        by (simp add: count_starting_summary)
    next
      case (DiscoverExit k d)
      then have "room_summary m = room_summary self" using s by simp
      then show ?thesis using Inr Cons.IH[of m] DiscoverExit
        by (simp add: count_starting_summary)
    qed
  qed
qed

lemma first_add_flagged_creations: "first_add_flagged cs \<Longrightarrow> 0 < flagged_creations [] cs"
  by (induction cs rule: first_add_flagged.induct) simp_all

text \<open>
  C4, as amended. For every sequence of \<open>add_room\<close>, \<open>connect_rooms\<close> and \<open>discover_exit\<close>
  calls from the empty store whose first \<open>add_room\<close> passes the flag: the number of rooms
  with the flag \<^verbatim>\<open>is_starting_room\<close> is the number of \<open>add_room\<close> calls that created a room
  and passed the flag, and \<^verbatim>\<open>starting_room_id\<close> names the room with the flag that was created
  last. So when no later call creates a room with the flag, exactly one room has the flag
  and \<^verbatim>\<open>starting_room_id\<close> names it.
\<close>

theorem starting_room_flag_and_id:
  assumes "first_add_flagged cs"
  shows "count_starting (run_calls WorldMap_init cs) = flagged_creations [] cs \<and>
     names_last_flagged (run_calls WorldMap_init cs) \<and>
     (flagged_creations [] cs = 1 \<longrightarrow> exactly_one_starting (run_calls WorldMap_init cs))"
proof -
  let ?m = "run_calls WorldMap_init cs"
  have c: "count_starting ?m = flagged_creations [] cs"
    using count_starting_run_calls[of WorldMap_init cs]
    by (simp add: count_starting_def room_summary_def WorldMap_init_def)
  have pos: "0 < count_starting ?m" using c first_add_flagged_creations[OF assms] by simp
  have n: "names_last_flagged ?m"
    using store_ok_names_last_flagged[OF store_ok_run_calls[OF store_ok_init] pos] .
  have "exactly_one_starting ?m" if "flagged_creations [] cs = 1"
    using n c that unfolding names_last_flagged_def exactly_one_starting_def
    by (auto split: option.splits)
  then show ?thesis using c n by blast
qed

theorem starting_room_flag_and_id_witness:
  "first_add_flagged [AddRoom ''a'' ''A'' ''d'' 10 8 True, AddRoom ''b'' ''B'' ''d'' 6 6 False,
      ConnectRooms ''a'' NORTH ''b'', AddRoom ''a'' ''A2'' ''d'' 4 4 True,
      DiscoverExit ''b'' EAST] \<and>
   count_starting (run_calls WorldMap_init [AddRoom ''a'' ''A'' ''d'' 10 8 True,
      AddRoom ''b'' ''B'' ''d'' 6 6 False, ConnectRooms ''a'' NORTH ''b'',
      AddRoom ''a'' ''A2'' ''d'' 4 4 True, DiscoverExit ''b'' EAST]) = 1 \<and>
   names_last_flagged (run_calls WorldMap_init [AddRoom ''a'' ''A'' ''d'' 10 8 True,
      AddRoom ''b'' ''B'' ''d'' 6 6 False, ConnectRooms ''a'' NORTH ''b'',
      AddRoom ''a'' ''A2'' ''d'' 4 4 True, DiscoverExit ''b'' EAST]) \<and>
   exactly_one_starting (run_calls WorldMap_init [AddRoom ''a'' ''A'' ''d'' 10 8 True,
      AddRoom ''b'' ''B'' ''d'' 6 6 False, ConnectRooms ''a'' NORTH ''b'',
      AddRoom ''a'' ''A2'' ''d'' 4 4 True, DiscoverExit ''b'' EAST])"
proof -
  let ?cs = "[AddRoom ''a'' ''A'' ''d'' 10 8 True, AddRoom ''b'' ''B'' ''d'' 6 6 False,
      ConnectRooms ''a'' NORTH ''b'', AddRoom ''a'' ''A2'' ''d'' 4 4 True,
      DiscoverExit ''b'' EAST]"
  have f: "first_add_flagged ?cs" by simp
  have o: "flagged_creations [] ?cs = 1" by simp
  show ?thesis using f o starting_room_flag_and_id[OF f] by simp
qed

text \<open>
  The claim C4 as it is stated fails: nothing in \<open>add_room\<close> clears a flag, so two rooms
  added with the flag are both flagged.
\<close>

theorem exactly_one_starting_room_counterexample:
  "rooms (run_calls WorldMap_init
     [AddRoom ''a'' ''A'' ''d'' 10 8 True, AddRoom ''b'' ''B'' ''d'' 6 6 True]) \<noteq> [] \<and>
   count_starting (run_calls WorldMap_init
     [AddRoom ''a'' ''A'' ''d'' 10 8 True, AddRoom ''b'' ''B'' ''d'' 6 6 True]) = 2 \<and>
   \<not> exactly_one_starting (run_calls WorldMap_init
     [AddRoom ''a'' ''A'' ''d'' 10 8 True, AddRoom ''b'' ''B'' ''d'' 6 6 True])"
  by (simp add: add_room_def WorldMap_init_def Let_def count_starting_def
      exactly_one_starting_def)

subsection \<open>Adding a room, discovering an exit\<close>

text \<open>
  C3, as amended. \<open>add_room\<close> has no check of the geometry: for an id that is not in the
  store and any width and height, also zero or negative ones, the call returns normally
  and the room is appended to the store with that id, width and height.
\<close>

theorem add_room_no_geometry_check:
  assumes "map_of (rooms self) room_id = None"
  shows "\<exists>room self1. add_room self room_id nm descr w h is_start = (room, self1) \<and>
     perform self (AddRoom room_id nm descr w h is_start) = Inr self1 \<and>
     rooms self1 = rooms self @ [(room_id, room)] \<and>
     id' room = room_id \<and> width room = w \<and> height room = h"
  using assms by (auto simp: add_room_def Let_def update_fresh)

theorem add_room_no_geometry_check_witness:
  "\<exists>room self1. add_room WorldMap_init ''a'' ''A'' ''d'' 0 (- 8) False = (room, self1) \<and>
     perform WorldMap_init (AddRoom ''a'' ''A'' ''d'' 0 (- 8) False) = Inr self1 \<and>
     rooms self1 = rooms WorldMap_init @ [(''a'', room)] \<and>
     id' room = ''a'' \<and> width room = 0 \<and> height room = - 8"
  by (rule add_room_no_geometry_check) (simp add: WorldMap_init_def)

text \<open>
  The claim C3 as it is stated fails: a room of width 0 and height -8 is added, with no
  error.
\<close>

theorem add_room_nonpositive_counterexample:
  "perform WorldMap_init (AddRoom ''a'' ''A'' ''d'' 0 (- 8) False) =
     Inr \<lparr>rooms = [(''a'', \<lparr>id' = ''a'', name = ''A'', description = ''d'', width = 0, height = - 8,
                      x = 0, y = 0, exits = [], is_starting_room = False, discovery_order = 1\<rparr>)],
          discovery_count = 1, starting_room_id = Some ''a''\<rparr>"
  by (simp add: add_room_def WorldMap_init_def Let_def)

text \<open>
  C7, as amended. \<open>discover_exit\<close> never fails. For an id that is not in the store it
  returns the store unchanged; for an id that is in the store it writes, in the given
  direction, an exit with no target and \<^verbatim>\<open>is_discovered\<close> false, over any exit that was in
  that slot.
\<close>

theorem discover_exit_effect:
  "perform self (DiscoverExit room_id d) = Inr (discover_exit self room_id d) \<and>
   (map_of (rooms self) room_id = None \<longrightarrow> discover_exit self room_id d = self) \<and>
   (\<forall>room. map_of (rooms self) room_id = Some room \<longrightarrow>
      map_of (rooms (discover_exit self room_id d)) room_id = Some (add_exit room d None) \<and>
      map_of (exits (add_exit room d None)) d =
        Some \<lparr>direction = d, target_room_id = None, is_discovered = False\<rparr>)"
  by (simp add: discover_exit_def map_of_mutate_room map_of_exits_add_exit)

theorem discover_exit_effect_witness:
  "discover_exit example_store ''ghost'' WEST = example_store \<and>
   (\<exists>room. map_of (rooms example_store) ''a'' = Some room \<and>
      map_of (rooms (discover_exit example_store ''a'' NORTH)) ''a'' = Some (add_exit room NORTH None) \<and>
      map_of (exits (add_exit room NORTH None)) NORTH =
        Some \<lparr>direction = NORTH, target_room_id = None, is_discovered = False\<rparr>)"
proof -
  have g: "map_of (rooms example_store) ''ghost'' = None"
    by (simp add: example_store_value)
  obtain room where a: "map_of (rooms example_store) ''a'' = Some room"
    by (simp add: example_store_value)
  show ?thesis
    using g a discover_exit_effect[of example_store "''ghost''" WEST]
      discover_exit_effect[of example_store "''a''" NORTH]
    by simp
qed

text \<open>
  The claim C7 as it is stated fails: for an id that is not in the store the call returns
  normally.
\<close>

theorem discover_exit_unknown_room_counterexample:
  "perform WorldMap_init (DiscoverExit ''ghost'' EAST) = Inr WorldMap_init"
  by (simp add: discover_exit_def WorldMap_init_def)

subsection \<open>Which records \<open>from_dict\<close> rejects\<close>

lemma Direction_of_value_value: "Direction_of_value (Direction_value d) = Inr d"
  by (cases d) (simp_all add: Direction_of_value_def Direction_members_def)
















subsection \<open>The round trip through the codec\<close>

lemma Direction_value_inj: "Direction_value d = Direction_value d' \<Longrightarrow> d = d'"
  using Direction_of_value_value by (metis sum.inject(2))

lemma foldl_update_distinct:
  "distinct (map fst (acc @ xs)) \<Longrightarrow>
     foldl (\<lambda>d (k, v). AList.update k v d) acc xs = acc @ xs"
proof (induction xs arbitrary: acc)
  case Nil
  then show ?case by simp
next
  case (Cons item xs)
  obtain k v where item: "item = (k, v)" by (cases item)
  have fresh: "k \<notin> fst ` set acc" using Cons.prems item by auto
  have "distinct (map fst ((acc @ [(k, v)]) @ xs))" using Cons.prems item by simp
  then have "foldl (\<lambda>d (k, v). AList.update k v d) (acc @ [(k, v)]) xs = (acc @ [(k, v)]) @ xs"
    by (rule Cons.IH)
  then show ?case by (simp add: item update_fresh_keys[OF fresh])
qed

lemma dict_of_items_distinct: "distinct (map fst xs) \<Longrightarrow> dict_of_items xs = xs"
  using foldl_update_distinct[of "[]" xs] by (simp add: dict_of_items_def)

lemma distinct_exit_tokens:
  "distinct (map fst es) \<Longrightarrow>
     distinct (map fst (map (\<lambda>(dir, exit_info). (Direction_value dir, exit_to_dict exit_info)) es))"
proof -
  assume d: "distinct (map fst es)"
  have "map fst (map (\<lambda>(dir, exit_info). (Direction_value dir, exit_to_dict exit_info)) es) =
      map Direction_value (map fst es)"
    by (induction es) auto
  moreover have "inj_on Direction_value (set (map fst es))"
    using Direction_value_inj by (auto intro: inj_onI)
  ultimately show ?thesis using d by (simp only: distinct_map)
qed

lemma exit_roundtrip:
  "\<lparr>direction = direction e, target_room_id = target_room_id e, is_discovered = is_discovered e\<rparr> = e"
  by simp

lemma exit_to_dict_sel:
  "ed_direction (exit_to_dict e) = Some (Direction_value (direction e))"
  "ed_target_room_id (exit_to_dict e) = Some (target_room_id e)"
  "ed_is_discovered (exit_to_dict e) = Some (is_discovered e)"
  by (simp_all add: exit_to_dict_def)

lemma restore_room_exits_roundtrip:
  "distinct (map fst (exits room @ es)) \<Longrightarrow>
     restore_room_exits
       (map (\<lambda>(dir, exit_info). (Direction_value dir, exit_to_dict exit_info)) es) room =
     Inr (room\<lparr>exits := exits room @ es\<rparr>)"
proof (induction es arbitrary: room)
  case Nil
  then show ?case by simp
next
  case (Cons item es)
  obtain d e where item: "item = (d, e)" by (cases item)
  have fresh: "d \<notin> fst ` set (exits room)" using Cons.prems item by auto
  let ?room1 = "room\<lparr>exits := exits room @ [(d, e)]\<rparr>"
  have "distinct (map fst (exits ?room1 @ es))" using Cons.prems item by simp
  then have ih: "restore_room_exits
       (map (\<lambda>(dir, exit_info). (Direction_value dir, exit_to_dict exit_info)) es) ?room1 =
     Inr (?room1\<lparr>exits := exits ?room1 @ es\<rparr>)"
    by (rule Cons.IH)
  show ?case
    by (simp add: item Direction_of_value_value exit_to_dict_sel get_default_def
        update_fresh_keys[OF fresh] exit_roundtrip ih)
qed

lemma room_of_data_roundtrip: "room_of_data (room_to_dict r) = Inr (r\<lparr>exits := []\<rparr>)"
  by (simp add: room_of_data_def room_to_dict_def get_default_def)

lemma create_rooms_roundtrip:
  "distinct (map fst (rooms world_map @ rs)) \<Longrightarrow>
     create_rooms (map (\<lambda>(room_id, room). (room_id, room_to_dict room)) rs) world_map =
     Inr (world_map\<lparr>rooms := rooms world_map @ map (\<lambda>(room_id, room). (room_id, room\<lparr>exits := []\<rparr>)) rs\<rparr>)"
proof (induction rs arbitrary: world_map)
  case Nil
  then show ?case by simp
next
  case (Cons item rs)
  obtain k r where item: "item = (k, r)" by (cases item)
  have fresh: "k \<notin> fst ` set (rooms world_map)" using Cons.prems item by auto
  let ?wm1 = "world_map\<lparr>rooms := rooms world_map @ [(k, r\<lparr>exits := []\<rparr>)]\<rparr>"
  have "distinct (map fst (rooms ?wm1 @ rs))" using Cons.prems item by simp
  then have ih: "create_rooms (map (\<lambda>(room_id, room). (room_id, room_to_dict room)) rs) ?wm1 =
     Inr (?wm1\<lparr>rooms := rooms ?wm1 @ map (\<lambda>(room_id, room). (room_id, room\<lparr>exits := []\<rparr>)) rs\<rparr>)"
    by (rule Cons.IH)
  show ?case
    by (simp add: item room_of_data_roundtrip update_fresh_keys[OF fresh] ih)
qed

lemma restore_exits_roundtrip:
  assumes "rooms world_map = done @ map (\<lambda>(room_id, room). (room_id, room\<lparr>exits := []\<rparr>)) rs"
    and "distinct (map fst (done @ rs))"
    and "list_all (\<lambda>item. distinct (map fst (exits (snd item)))) rs"
  shows "restore_exits (map (\<lambda>(room_id, room). (room_id, room_to_dict room)) rs) world_map =
     Inr (world_map\<lparr>rooms := done @ rs\<rparr>)"
  using assms
proof (induction rs arbitrary: world_map "done")
  case Nil
  then show ?case by simp
next
  case (Cons item rs)
  obtain k r where item: "item = (k, r)" by (cases item)
  have fresh: "k \<notin> fst ` set done" using Cons.prems(2) item by auto
  have dr: "distinct (map fst (exits r))" using Cons.prems(3) item by simp
  have look: "map_of (rooms world_map) k = Some (r\<lparr>exits := []\<rparr>)"
    using Cons.prems(1) item map_of_append_fresh[OF fresh] by simp
  have enc: "get_default (rd_exits (room_to_dict r)) [] =
      map (\<lambda>(dir, exit_info). (Direction_value dir, exit_to_dict exit_info)) (exits r)"
    by (simp add: room_to_dict_def get_default_def
        dict_of_items_distinct[OF distinct_exit_tokens[OF dr]])
  have ex: "restore_room_exits (get_default (rd_exits (room_to_dict r)) []) (r\<lparr>exits := []\<rparr>) = Inr r"
    unfolding enc using restore_room_exits_roundtrip[of "r\<lparr>exits := []\<rparr>" "exits r"] dr by simp
  let ?wm1 = "mutate_room world_map k (\<lambda>_. r)"
  have r1: "rooms ?wm1 = (done @ [(k, r)]) @ map (\<lambda>(room_id, room). (room_id, room\<lparr>exits := []\<rparr>)) rs"
    using Cons.prems(1) item map_entry_append[OF fresh] by (simp add: mutate_room_def)
  have d1: "distinct (map fst ((done @ [(k, r)]) @ rs))" using Cons.prems(2) item by simp
  have a1: "list_all (\<lambda>item. distinct (map fst (exits (snd item)))) rs" using Cons.prems(3) by simp
  have "restore_exits (map (\<lambda>(room_id, room). (room_id, room_to_dict room)) rs) ?wm1 =
     Inr (?wm1\<lparr>rooms := (done @ [(k, r)]) @ rs\<rparr>)"
    using Cons.IH[OF r1 d1 a1] .
  then show ?case by (simp add: item look ex mutate_room_def)
qed

text \<open>Every store that the three mutators build from the empty store is valid.\<close>

lemma valid_WorldMap_mutate_room:
  assumes "valid_WorldMap self"
    and "\<And>v. map_of (rooms self) k = Some v \<Longrightarrow> distinct (map fst (exits v)) \<Longrightarrow>
      distinct (map fst (exits (f v)))"
  shows "valid_WorldMap (mutate_room self k f)"
  using assms list_all_map_entry[of "\<lambda>r. distinct (map fst (exits r))" "rooms self" k f]
  by (simp add: valid_WorldMap_def mutate_room_def map_fst_map_entry)

lemma distinct_exits_add_exit:
  "distinct (map fst (exits r)) \<Longrightarrow> distinct (map fst (exits (add_exit r d t)))"
  by (simp add: add_exit_def distinct_update)

lemma valid_WorldMap_write_exits:
  "valid_WorldMap self \<Longrightarrow> valid_WorldMap (write_exits self a d rv b)"
  by (simp add: write_exits_def valid_WorldMap_mutate_room distinct_exits_add_exit)

lemma valid_WorldMap_connect_rooms:
  assumes v: "valid_WorldMap self" and c: "connect_rooms self a d b = Inr m"
  shows "valid_WorldMap m"
proof -
  obtain rv fr tr where tr: "map_of (rooms (write_exits self a d rv b)) b = Some tr"
    and m: "m = (if x tr = 0 \<and> y tr = 0 \<and> \<not> is_starting_room tr
          then mutate_room (write_exits self a d rv b) b
                 (\<lambda>_. position_room_relative_to (write_exits self a d rv b) tr fr d)
          else write_exits self a d rv b)"
    using connect_rooms_result[OF c] by blast
  have w: "valid_WorldMap (write_exits self a d rv b)" using v by (rule valid_WorldMap_write_exits)
  have "valid_WorldMap (mutate_room (write_exits self a d rv b) b
      (\<lambda>_. position_room_relative_to (write_exits self a d rv b) tr fr d))"
    using w by (rule valid_WorldMap_mutate_room)
      (simp add: tr moved_only_exits[OF moved_only_position])
  then show ?thesis using m w by simp
qed

lemma valid_WorldMap_add_room:
  assumes "valid_WorldMap self"
  shows "valid_WorldMap (snd (add_room self k nm descr w h st))"
proof (cases "map_of (rooms self) k")
  case (Some r)
  then show ?thesis using assms by (simp add: add_room_def)
next
  case None
  then have "k \<notin> fst ` set (rooms self)" by (simp add: map_of_eq_None_iff)
  then show ?thesis using assms None
    by (auto simp: valid_WorldMap_def add_room_def Let_def update_fresh)
qed

lemma valid_WorldMap_discover_exit:
  "valid_WorldMap self \<Longrightarrow> valid_WorldMap (discover_exit self k d)"
  by (simp add: discover_exit_def valid_WorldMap_mutate_room distinct_exits_add_exit)

lemma valid_WorldMap_run_calls: "valid_WorldMap self \<Longrightarrow> valid_WorldMap (run_calls self cs)"
proof (induction cs arbitrary: self)
  case Nil
  then show ?case by simp
next
  case (Cons c cs)
  have "valid_WorldMap (case perform self c of Inl e \<Rightarrow> self | Inr self1 \<Rightarrow> self1)"
    using Cons.prems
    by (cases c) (auto simp: valid_WorldMap_add_room valid_WorldMap_discover_exit
        valid_WorldMap_connect_rooms split: sum.splits)
  then show ?case using Cons.IH by simp
qed

lemma valid_WorldMap_init: "valid_WorldMap WorldMap_init"
  by (simp add: valid_WorldMap_def WorldMap_init_def)

text \<open>
  C1. For every valid store, decoding its encoding succeeds and returns the store itself:
  the same discovery count and starting room id, the same rooms in the same order with
  all their fields, and for every room the same exits, each with its direction, its
  target (also when there is none) and its \<^verbatim>\<open>is_discovered\<close> flag.
\<close>

theorem from_dict_to_dict:
  assumes "valid_WorldMap self"
  shows "from_dict (to_dict self) = Inr self"
proof -
  have d: "distinct (map fst (rooms self))"
    and e: "list_all (\<lambda>item. distinct (map fst (exits (snd item)))) (rooms self)"
    using assms by (simp_all add: valid_WorldMap_def)
  let ?items = "map (\<lambda>(room_id, room). (room_id, room_to_dict room)) (rooms self)"
  let ?wm0 = "WorldMap_init\<lparr>discovery_count := discovery_count self,
      starting_room_id := starting_room_id self\<rparr>"
  have keys: "map fst ?items = map fst (rooms self)" by (induction "rooms self") auto
  have items: "get_default (md_rooms (to_dict self)) [] = ?items"
    using d by (simp add: to_dict_def get_default_def dict_of_items_distinct keys del: map_map)
  have wm0: "WorldMap_init
            \<lparr>discovery_count := get_default (md_discovery_count (to_dict self)) 0,
             starting_room_id := get_default (md_starting_room_id (to_dict self)) None\<rparr> = ?wm0"
    by (simp add: to_dict_def get_default_def)
  have p1: "create_rooms ?items ?wm0 =
      Inr (?wm0\<lparr>rooms := map (\<lambda>(room_id, room). (room_id, room\<lparr>exits := []\<rparr>)) (rooms self)\<rparr>)"
    using create_rooms_roundtrip[of ?wm0 "rooms self"] d by (simp add: WorldMap_init_def)
  have p2: "restore_exits ?items
      (?wm0\<lparr>rooms := map (\<lambda>(room_id, room). (room_id, room\<lparr>exits := []\<rparr>)) (rooms self)\<rparr>) =
      Inr (?wm0\<lparr>rooms := rooms self\<rparr>)"
    using restore_exits_roundtrip[of _ "[]" "rooms self"] d e by simp
  have fin: "?wm0\<lparr>rooms := rooms self\<rparr> = self" by (simp add: WorldMap_init_def)
  show ?thesis
    unfolding from_dict_def Let_def items wm0 by (simp add: p1 p2 fin)
qed

theorem from_dict_to_dict_witness:
  "valid_WorldMap example_store \<and> from_dict (to_dict example_store) = Inr example_store"
proof -
  have v: "valid_WorldMap example_store"
    by (simp add: example_store_value valid_WorldMap_def)
  show ?thesis using v from_dict_to_dict[OF v] by simp
qed

end
